(* ===== verification/Prelude.thy ===== *)
theory Prelude
  imports Main "HOL-Library.Word" "HOL-Library.Monad_Syntax"
begin

unbundle bit_operations_syntax

text \<open>
  Shared vocabulary of the development: the fixed-width integer types of the C code,
  the outcome type of a modelled call (a value, an access outside the memory object, or
  fuel that ran out), little-endian storage of 64-bit words in byte lists, bounded copies
  into a byte list, and the arithmetic facts on powers of two and on 64-bit words that
  every component uses.
\<close>

section \<open>Machine types\<close>

type_synonym u8 = "8 word"
type_synonym u32 = "32 word"
type_synonym u64 = "64 word"

named_theorems word_nat
  \<comment> \<open>equations that read a 64-bit operation of the code as arithmetic on natural numbers\<close>

named_theorems frame
  \<comment> \<open>what a write to memory leaves unchanged\<close>

section \<open>Outcome of a modelled call\<close>

text \<open>
  \<open>Done x\<close>: the call returned \<open>x\<close>. \<open>Fault\<close>: it accessed memory outside the object it was
  given, undefined behaviour in C. \<open>Timeout\<close>: the fuel of the model ran out, or the call is in a
  loop that never ends.
\<close>

datatype 'a run = Done 'a | Fault | Timeout

fun bind_run :: "'a run \<Rightarrow> ('a \<Rightarrow> 'b run) \<Rightarrow> 'b run" where
  "bind_run (Done x) f = f x"
| "bind_run Fault f = Fault"
| "bind_run Timeout f = Timeout"

fun access :: "'a option \<Rightarrow> ('a \<Rightarrow> 'b run) \<Rightarrow> 'b run" where
  "access None f = Fault"
| "access (Some x) f = f x"

lemma bind_run_Done [simp]: "bind_run m Done = m"
  by (cases m) simp_all

lemma bind_run_assoc: "bind_run (bind_run m f) g = bind_run m (\<lambda>x. bind_run (f x) g)"
  by (cases m) simp_all

lemma bind_run_eq_Done_iff: "bind_run m f = Done y \<longleftrightarrow> (\<exists>x. m = Done x \<and> f x = Done y)"
  by (cases m) simp_all

lemma access_eq_Done_iff: "access m f = Done y \<longleftrightarrow> (\<exists>x. m = Some x \<and> f x = Done y)"
  by (cases m) simp_all

lemma bind_run_DoneE:
  assumes "bind_run m f = Done y"
  obtains x where "m = Done x" and "f x = Done y"
  using assms by (auto simp: bind_run_eq_Done_iff)

lemma access_DoneE:
  assumes "access m f = Done y"
  obtains x where "m = Some x" and "f x = Done y"
  using assms by (auto simp: access_eq_Done_iff)

lemmas run_elims = bind_run_DoneE access_DoneE

lemma access_eq_Timeout_iff: "access m f = Timeout \<longleftrightarrow> (\<exists>x. m = Some x \<and> f x = Timeout)"
  by (cases m) simp_all

lemma bind_run_eq_Timeout_iff:
  "bind_run m f = Timeout \<longleftrightarrow> m = Timeout \<or> (\<exists>x. m = Done x \<and> f x = Timeout)"
  by (cases m) simp_all

section \<open>Little-endian words in byte lists\<close>

fun nat_le :: "nat \<Rightarrow> nat \<Rightarrow> u8 list" where
  "nat_le 0 n = []"
| "nat_le (Suc k) n = word_of_nat n # nat_le k (n div 256)"

fun le_nat :: "u8 list \<Rightarrow> nat" where
  "le_nat [] = 0"
| "le_nat (b # bs) = unat b + 256 * le_nat bs"

definition le_bytes :: "u64 \<Rightarrow> u8 list" where
  "le_bytes w = nat_le 8 (unat w)"

definition le_word :: "u8 list \<Rightarrow> u64" where
  "le_word bs = word_of_nat (le_nat bs)"

lemma length_nat_le [simp]: "length (nat_le k n) = k"
  by (induction k arbitrary: n) simp_all

lemma length_le_bytes [simp]: "length (le_bytes w) = 8"
  by (simp add: le_bytes_def)

lemma le_nat_nat_le: "le_nat (nat_le k n) = n mod 256 ^ k"
proof (induction k arbitrary: n)
  case (Suc k)
  have "n mod 256 + 256 * (n div 256 mod 256 ^ k) = n mod (256 * 256 ^ k)"
    by (simp add: mod_mult2_eq)
  with Suc show ?case
    by (simp add: unat_of_nat)
qed simp

lemma le_word_le_bytes [simp]: "le_word (le_bytes w) = w"
proof -
  have "unat w < 256 ^ 8"
    using unsigned_less [of w] by simp
  then show ?thesis
    by (simp add: le_word_def le_bytes_def le_nat_nat_le)
qed

section \<open>Reads and writes of a byte list\<close>

text \<open>
  A read or a write outside the list is \<open>None\<close>: the C code would leave the memory object.
\<close>

definition read_bytes :: "u8 list \<Rightarrow> nat \<Rightarrow> nat \<Rightarrow> u8 list option" where
  "read_bytes d p n = (if p + n \<le> length d then Some (take n (drop p d)) else None)"

definition write_bytes :: "u8 list \<Rightarrow> nat \<Rightarrow> u8 list \<Rightarrow> u8 list option" where
  "write_bytes d p bs =
     (if p + length bs \<le> length d then Some (take p d @ bs @ drop (p + length bs) d) else None)"

definition load_u64 :: "u8 list \<Rightarrow> nat \<Rightarrow> u64 option" where
  "load_u64 d p = map_option le_word (read_bytes d p 8)"

definition store_u64 :: "u8 list \<Rightarrow> nat \<Rightarrow> u64 \<Rightarrow> u8 list option" where
  "store_u64 d p w = write_bytes d p (le_bytes w)"

text \<open>\<open>memcpy\<close> of the first \<open>n\<close> bytes of \<open>src\<close>.\<close>

definition memcpy :: "u8 list \<Rightarrow> nat \<Rightarrow> u8 list \<Rightarrow> nat \<Rightarrow> u8 list option" where
  "memcpy d p src n = do { bs \<leftarrow> read_bytes src 0 n; write_bytes d p bs }"

lemma length_write_bytes: "write_bytes d p bs = Some d' \<Longrightarrow> length d' = length d"
  by (auto simp: write_bytes_def split: if_splits)

lemma length_store_u64: "store_u64 d p w = Some d' \<Longrightarrow> length d' = length d"
  unfolding store_u64_def by (rule length_write_bytes)

lemma length_read_bytes: "read_bytes d p n = Some bs \<Longrightarrow> length bs = n"
  by (auto simp: read_bytes_def split: if_splits)

lemma write_bytes_Some_iff:
  "write_bytes d p bs = Some d' \<longleftrightarrow>
     p + length bs \<le> length d \<and> d' = take p d @ bs @ drop (p + length bs) d"
  by (auto simp: write_bytes_def)

lemma write_bytes_nth:
  assumes "write_bytes d p bs = Some d'" and "i < length d"
  shows "d' ! i = (if p \<le> i \<and> i < p + length bs then bs ! (i - p) else d ! i)"
proof -
  have d': "d' = take p d @ bs @ drop (p + length bs) d" and fits: "p + length bs \<le> length d"
    using assms(1) by (simp_all add: write_bytes_Some_iff)
  consider "i < p" | "p \<le> i" "i < p + length bs" | "p + length bs \<le> i"
    by linarith
  then show ?thesis
    using assms(2) fits by cases (auto simp: d' nth_append add.commute)
qed

lemma read_bytes_cong:
  assumes "length d' = length d" and "\<And>i. p \<le> i \<Longrightarrow> i < p + n \<Longrightarrow> d' ! i = d ! i"
  shows "read_bytes d' p n = read_bytes d p n"
proof (cases "p + n \<le> length d")
  case True
  have "take n (drop p d') = take n (drop p d)"
    by (rule nth_equalityI) (use assms True in simp_all)
  then show ?thesis
    using assms(1) by (simp add: read_bytes_def)
qed (use assms(1) in \<open>simp add: read_bytes_def\<close>)

lemma read_bytes_write_same:
  "write_bytes d p bs = Some d' \<Longrightarrow> read_bytes d' p (length bs) = Some bs"
  by (auto simp: write_bytes_def read_bytes_def split: if_splits)

lemma read_bytes_write_disjoint [frame]:
  assumes "write_bytes d p bs = Some d'" and "q + n \<le> p \<or> p + length bs \<le> q"
  shows "read_bytes d' q n = read_bytes d q n"
proof (cases "q + n \<le> length d")
  case True
  show ?thesis
  proof (rule read_bytes_cong)
    show "length d' = length d"
      using assms(1) by (rule length_write_bytes)
    show "d' ! i = d ! i" if "q \<le> i" and "i < q + n" for i
      using that True assms(2) write_bytes_nth [OF assms(1), of i] by auto
  qed
next
  case False
  then show ?thesis
    using length_write_bytes [OF assms(1)] by (simp add: read_bytes_def)
qed

lemma load_store_same: "store_u64 d p w = Some d' \<Longrightarrow> load_u64 d' p = Some w"
  using read_bytes_write_same [of d p "le_bytes w" d'] by (simp add: load_u64_def store_u64_def)

lemma load_store_disjoint [frame]:
  assumes "store_u64 d p w = Some d'" and "q + 8 \<le> p \<or> p + 8 \<le> q"
  shows "load_u64 d' q = load_u64 d q"
  using read_bytes_write_disjoint [of d p "le_bytes w" d' q 8] assms
  by (simp add: load_u64_def store_u64_def)

lemma store_u64_Some: "p + 8 \<le> length d \<Longrightarrow> \<exists>d'. store_u64 d p w = Some d'"
  by (simp add: store_u64_def write_bytes_def)

section \<open>64-bit arithmetic read as natural numbers\<close>

text \<open>The number of values of a \<open>uint64_t\<close>, kept as the numeral that \<open>simp\<close> normalises to.\<close>

abbreviation two64 :: nat where
  "two64 \<equiv> 18446744073709551616"

lemma unat_lt_two64: "unat (x :: u64) < two64"
  using unsigned_less [of x] by simp

lemma pow2_dvd_two64:
  assumes "k \<le> 64"
  shows "(2::nat) ^ k dvd two64"
proof -
  have "(2::nat) ^ k dvd 2 ^ 64"
    using assms by (rule le_imp_power_dvd)
  then show ?thesis by simp
qed

lemma mod_two64_mod_pow2: "k \<le> 64 \<Longrightarrow> n mod two64 mod 2 ^ k = n mod 2 ^ k"
  by (simp add: mod_mod_cancel pow2_dvd_two64)

lemma unat_add_two64: "unat (x + y :: u64) = (unat x + unat y) mod two64"
  by (simp add: unat_word_ariths)

lemma unat_of_nat_two64 [word_nat]: "unat (word_of_nat n :: u64) = n mod two64"
  by (simp add: unat_of_nat)

lemma unat_mod_word_of_nat:
  assumes "k \<le> 64"
  shows "unat (x + word_of_nat n :: u64) mod 2 ^ k = (unat x + n) mod 2 ^ k"
  using assms
  by (simp add: unat_add_two64 unat_of_nat_two64 mod_two64_mod_pow2 mod_add_right_eq)

lemma unat_word_of_nat_small: "n < two64 \<Longrightarrow> unat (word_of_nat n :: u64) = n"
  by (simp add: unat_of_nat_two64)

lemma unat_two_power: "unat (2 ^ j :: u64) = (if j < 64 then 2 ^ j else 0)"
proof (cases "j < 64")
  case True
  have "unat (push_bit j 1 :: u64) = take_bit 64 (push_bit j 1)"
    by (simp add: unsigned_push_bit_eq del: push_bit_of_1)
  moreover have "(2::nat) ^ j < 2 ^ 64"
    using True by (rule power_strict_increasing) simp
  ultimately show ?thesis
    using True by (simp add: push_bit_of_1 take_bit_nat_eq_self)
next
  case False
  have "push_bit j 1 = (0 :: u64)"
    by (intro bit_word_eqI) (use False in \<open>auto simp: bit_simps\<close>)
  then have "(2 :: u64) ^ j = 0"
    unfolding push_bit_of_1 .
  then have "unat (2 ^ j :: u64) = 0"
    by (simp only: unsigned_0)
  with False show ?thesis
    by (simp only: if_False)
qed

lemma word_add_diff_of_nat: "n < two64 \<Longrightarrow> unat ((h + word_of_nat n) - h :: u64) = n"
  by (simp add: unat_of_nat_two64)

lemma word_add_of_nat_eq_iff:
  "n < two64 \<Longrightarrow> m < two64 \<Longrightarrow> (h + word_of_nat n = (h + word_of_nat m :: u64)) \<longleftrightarrow> n = m"
  by (metis add_left_cancel unat_word_of_nat_small)

end
