(* ===== verification/Ipc_Common.thy ===== *)
theory Ipc_Common
  imports Prelude
begin

text \<open>
  \<^verbatim>\<open>include/shmipc/ipc_common.h\<close>: the status codes, the result structure that the macros
  \<open>IPC_RESULT\<close> and \<open>IPC_RESULT_UNIT\<close> generate for every operation, and the entry handed to
  a reader. A result is a status and a union of a value and an error. The two parts are
  independent in the C structure: \<open>is_ok\<close> and \<open>is_error\<close> look at the status only.
\<close>

section \<open>Status codes\<close>

datatype IpcStatus =
    IPC_OK
  | IPC_EMPTY
  | IPC_ALREADY_SKIPPED
  | IPC_PLACEHOLDER
  | IPC_ERR_ENTRY_TOO_LARGE
  | IPC_ERR_ALLOCATION
  | IPC_ERR_INVALID_ARGUMENT
  | IPC_ERR_TOO_SMALL
  | IPC_ERR_ILLEGAL_STATE
  | IPC_ERR_SYSTEM
  | IPC_ERR_NO_SPACE_CONTIGUOUS
  | IPC_ERR_NOT_READY
  | IPC_ERR_LOCKED
  | IPC_ERR_OFFSET_MISMATCH
  | IPC_ERR_TIMEOUT
  | IPC_ERR_CORRUPTED

primrec status_code :: "IpcStatus \<Rightarrow> int" where
  "status_code IPC_OK = 0"
| "status_code IPC_EMPTY = 1"
| "status_code IPC_ALREADY_SKIPPED = 2"
| "status_code IPC_PLACEHOLDER = 3"
| "status_code IPC_ERR_ENTRY_TOO_LARGE = -1"
| "status_code IPC_ERR_ALLOCATION = -2"
| "status_code IPC_ERR_INVALID_ARGUMENT = -3"
| "status_code IPC_ERR_TOO_SMALL = -4"
| "status_code IPC_ERR_ILLEGAL_STATE = -5"
| "status_code IPC_ERR_SYSTEM = -6"
| "status_code IPC_ERR_NO_SPACE_CONTIGUOUS = -7"
| "status_code IPC_ERR_NOT_READY = -8"
| "status_code IPC_ERR_LOCKED = -9"
| "status_code IPC_ERR_OFFSET_MISMATCH = -10"
| "status_code IPC_ERR_TIMEOUT = -11"
| "status_code IPC_ERR_CORRUPTED = -12"

text \<open>C compares statuses by their codes.\<close>

lemma status_code_inj: "status_code s = status_code t \<longleftrightarrow> s = t"
  by (cases s; cases t) simp_all

instantiation IpcStatus :: linorder
begin

definition less_eq_IpcStatus :: "IpcStatus \<Rightarrow> IpcStatus \<Rightarrow> bool" where
  "less_eq_IpcStatus s t \<longleftrightarrow> status_code s \<le> status_code t"

definition less_IpcStatus :: "IpcStatus \<Rightarrow> IpcStatus \<Rightarrow> bool" where
  "less_IpcStatus s t \<longleftrightarrow> status_code s < status_code t"

instance
  by standard
    (auto simp: less_eq_IpcStatus_def less_IpcStatus_def status_code_inj [symmetric])

end

section \<open>Results\<close>

text \<open>The error structure: the message, and the body where \<open>hasBody\<close> is set.\<close>

record 'e ipc_error =
  detail :: string
  body :: "'e option"

datatype ('t, 'e) ipc_union = Result 't | Failure "'e ipc_error"

record ('t, 'e) ipc_result =
  ipc_status :: IpcStatus
  content :: "('t, 'e) ipc_union"

definition result_ok :: "IpcStatus \<Rightarrow> 't \<Rightarrow> ('t, 'e) ipc_result" where
  "result_ok st r = \<lparr>ipc_status = st, content = Result r\<rparr>"

definition result_error :: "IpcStatus \<Rightarrow> string \<Rightarrow> ('t, 'e) ipc_result" where
  "result_error st msg =
     \<lparr>ipc_status = st, content = Failure \<lparr>detail = msg, body = None\<rparr>\<rparr>"

definition result_error_body :: "IpcStatus \<Rightarrow> string \<Rightarrow> 'e \<Rightarrow> ('t, 'e) ipc_result" where
  "result_error_body st msg e =
     \<lparr>ipc_status = st, content = Failure \<lparr>detail = msg, body = Some e\<rparr>\<rparr>"

definition is_ok :: "('t, 'e) ipc_result \<Rightarrow> bool" where
  "is_ok v \<longleftrightarrow> IPC_OK \<le> ipc_status v"

definition is_error :: "('t, 'e) ipc_result \<Rightarrow> bool" where
  "is_error v \<longleftrightarrow> ipc_status v < IPC_OK"

definition is_error_has_body :: "'e ipc_error \<Rightarrow> bool" where
  "is_error_has_body e \<longleftrightarrow> body e \<noteq> None"

text \<open>
  Reading the union: \<open>r.result\<close> and \<open>r.error.body\<close> when the other member was stored last
  is an indeterminate value in C, here \<open>None\<close>.
\<close>

fun union_result :: "('t, 'e) ipc_union \<Rightarrow> 't option" where
  "union_result (Result r) = Some r"
| "union_result (Failure e) = None"

fun union_error :: "('t, 'e) ipc_union \<Rightarrow> 'e ipc_error option" where
  "union_error (Result r) = None"
| "union_error (Failure e) = Some e"

definition error_body :: "('t, 'e) ipc_result \<Rightarrow> 'e option" where
  "error_body r = Option.bind (union_error (content r)) body"

definition error_detail :: "('t, 'e) ipc_result \<Rightarrow> string option" where
  "error_detail r = map_option detail (union_error (content r))"

lemma is_ok_iff_not_is_error: "is_ok r \<longleftrightarrow> \<not> is_error r"
  by (auto simp: is_ok_def is_error_def)

lemma is_error_iff: "is_error r \<longleftrightarrow> status_code (ipc_status r) < 0"
  by (simp add: is_error_def less_IpcStatus_def)

lemmas result_defs = result_ok_def result_error_def result_error_body_def

lemma ipc_status_simps [simp]:
  "ipc_status (result_ok st r) = st"
  "ipc_status (result_error st msg) = st"
  "ipc_status (result_error_body st msg e) = st"
  by (simp_all add: result_defs)

lemma content_simps [simp]:
  "content (result_ok st r) = Result r"
  "content (result_error st msg) = Failure \<lparr>detail = msg, body = None\<rparr>"
  "content (result_error_body st msg e) = Failure \<lparr>detail = msg, body = Some e\<rparr>"
  by (simp_all add: result_defs)

lemma error_body_simps [simp]:
  "error_body (result_ok st r) = None"
  "error_body (result_error st msg) = None"
  "error_body (result_error_body st msg e) = Some e"
  by (simp_all add: error_body_def)

lemma error_detail_simps [simp]:
  "error_detail (result_ok st r) = None"
  "error_detail (result_error st msg) = Some msg"
  "error_detail (result_error_body st msg e) = Some msg"
  by (simp_all add: error_detail_def)

text \<open>
  The union member that matches the status was stored: the value of a result that is not an error,
  the error with its body of one that is. Code that looks at the status first then never reads
  the other member.
\<close>

definition well_tagged :: "('t, 'e) ipc_result \<Rightarrow> bool" where
  "well_tagged r \<longleftrightarrow>
     (if is_error r then error_body r \<noteq> None else union_result (content r) \<noteq> None)"

lemma well_tagged_simps [simp]:
  "well_tagged (result_ok st v) \<longleftrightarrow> IPC_OK \<le> st"
  "well_tagged (result_error_body st msg e) \<longleftrightarrow> st < IPC_OK"
  "\<not> well_tagged (result_error st msg)"
  by (auto simp: well_tagged_def is_error_def not_less leD)

lemma status_order [simp]:
  "IPC_OK \<le> st \<longleftrightarrow> st \<in> {IPC_OK, IPC_EMPTY, IPC_ALREADY_SKIPPED, IPC_PLACEHOLDER}"
  "st < IPC_OK \<longleftrightarrow> st \<notin> {IPC_OK, IPC_EMPTY, IPC_ALREADY_SKIPPED, IPC_PLACEHOLDER}"
  by (cases st; simp add: less_eq_IpcStatus_def less_IpcStatus_def)+

lemma well_tagged_error:
  assumes "well_tagged r" and "is_error r"
  obtains b d where "error_body r = Some b" and "error_detail r = Some d"
  using assms by (auto simp: well_tagged_def error_body_def error_detail_def bind_eq_Some_conv)

section \<open>Entries\<close>

text \<open>
  The \<open>payload\<close> pointer of an entry. A reader passes the address of its own memory,
  whose bytes the model carries (\<open>Own\<close>); \<open>ipc_buffer_peek\<close> stores a pointer into the data
  area of the buffer (\<open>In_Buffer p\<close>, the byte position \<open>p\<close>), which is an alias: what it
  designates is whatever the data area holds.
\<close>

datatype payload_ptr = Null | Own "u8 list" | In_Buffer nat

record IpcEntry =
  entry_offset :: u64
  payload :: payload_ptr
  entry_len :: u64

end
