(* ===== verification/C_Memory.thy ===== *)
theory C_Memory
  imports Ipc_Common
begin

text \<open>
  The part of C's memory that the constructors of the library use: pointers, objects and
  \<open>malloc\<close>/\<open>free\<close>. A pointer is \<open>NULL\<close> or an object and a byte offset into it. An object is
  either raw bytes (shared or caller-provided memory) or one of the structures that the library
  allocates. Whether the next calls of \<open>malloc\<close> fail is part of the state (\<open>script\<close>), so that
  every statement about an allocation holds for both outcomes.
\<close>

section \<open>Pointers and objects\<close>

datatype ptr = NULL | Ptr nat nat

fun ptr_add :: "ptr \<Rightarrow> nat \<Rightarrow> ptr" where
  "ptr_add NULL n = NULL"
| "ptr_add (Ptr a off) n = Ptr a (off + n)"

text \<open>\<open>struct IpcBuffer\<close>, \<open>struct IpcChannel\<close> and \<open>IpcMemorySegment\<close>: the process-local handles.\<close>

record buffer_handle =
  header_ptr :: ptr
  data_ptr :: ptr

record channel_handle =
  channel_header_ptr :: ptr
  buffer_ptr :: ptr

record segment_handle =
  segment_name :: ptr
  segment_size :: u64
  segment_memory :: ptr

datatype cobject =
    Bytes "u8 list"
  | Buffer_Obj buffer_handle
  | Channel_Obj channel_handle
  | Segment_Obj segment_handle
  | Name_Obj string

record store =
  objects :: "nat \<Rightarrow> cobject option"
  fresh :: nat
  script :: "bool list"
  errno :: u32

section \<open>Allocation\<close>

definition ENOMEM :: u32 where
  "ENOMEM = 12"

text \<open>
  \<open>malloc\<close> of an object that the caller fills in at once: the pointer, or \<open>NULL\<close> with
  \<open>errno\<close> set where the script says that the call fails.
\<close>

definition malloc_fails :: "store \<Rightarrow> bool" where
  "malloc_fails s \<longleftrightarrow> script s \<noteq> [] \<and> hd (script s)"

definition malloc :: "cobject \<Rightarrow> store \<Rightarrow> ptr \<times> store" where
  "malloc obj s =
     (if malloc_fails s then (NULL, s\<lparr>script := tl (script s), errno := ENOMEM\<rparr>)
      else (Ptr (fresh s) 0,
        s\<lparr>objects := (objects s)(fresh s \<mapsto> obj), fresh := Suc (fresh s),
          script := tl (script s)\<rparr>))"

text \<open>
  \<open>free\<close> of \<open>NULL\<close> does nothing; of the start of a structure that \<open>malloc\<close> returned it removes
  the object; of anything else, a second time included, it is a fault (\<open>None\<close>).
\<close>

fun free :: "ptr \<Rightarrow> store \<Rightarrow> store option" where
  "free NULL s = Some s"
| "free (Ptr a off) s =
     (case objects s a of
        None \<Rightarrow> None
      | Some (Bytes d) \<Rightarrow> None
      | Some obj \<Rightarrow> if off = 0 then Some (s\<lparr>objects := (objects s)(a := None)\<rparr>) else None)"

text \<open>Every object was allocated before \<open>fresh\<close>.\<close>

definition store_ok :: "store \<Rightarrow> bool" where
  "store_ok s \<longleftrightarrow> (\<forall>a \<ge> fresh s. objects s a = None)"

lemma store_ok_fresh: "store_ok s \<Longrightarrow> objects s (fresh s) = None"
  by (simp add: store_ok_def)

lemma malloc_cases:
  obtains (fails) "malloc obj s = (NULL, s\<lparr>script := tl (script s), errno := ENOMEM\<rparr>)"
    | (succeeds) "malloc obj s = (Ptr (fresh s) 0,
        s\<lparr>objects := (objects s)(fresh s \<mapsto> obj), fresh := Suc (fresh s), script := tl (script s)\<rparr>)"
  unfolding malloc_def by (cases "malloc_fails s") simp_all

section \<open>Stores and loads through a pointer\<close>

definition object_bytes :: "store \<Rightarrow> nat \<Rightarrow> u8 list option" where
  "object_bytes s a = (case objects s a of Some (Bytes d) \<Rightarrow> Some d | _ \<Rightarrow> None)"

text \<open>
  A store of an integer that is not inside a byte object is a fault (\<open>None\<close>). The library's
  handles are smaller than the headers that are stored through such pointers.
\<close>

fun store_at :: "ptr \<Rightarrow> u8 list \<Rightarrow> store \<Rightarrow> store option" where
  "store_at NULL bs s = None"
| "store_at (Ptr a off) bs s =
     do {
       d \<leftarrow> object_bytes s a;
       d' \<leftarrow> write_bytes d off bs;
       Some (s\<lparr>objects := (objects s)(a \<mapsto> Bytes d')\<rparr>)
     }"

fun bytes_at :: "ptr \<Rightarrow> store \<Rightarrow> u8 list option" where
  "bytes_at NULL s = None"
| "bytes_at (Ptr a off) s = map_option (drop off) (object_bytes s a)"

text \<open>An object filled in after its allocation.\<close>

definition set_object :: "ptr \<Rightarrow> cobject \<Rightarrow> store \<Rightarrow> store option" where
  "set_object p obj s = (case p of
     NULL \<Rightarrow> None
   | Ptr a off \<Rightarrow> if off = 0 \<and> objects s a \<noteq> None then Some (s\<lparr>objects := (objects s)(a \<mapsto> obj)\<rparr>) else None)"

lemma store_at_bytes:
  assumes "store_at (Ptr a off) bs s = Some s'" and "object_bytes s a = Some d"
  shows "\<exists>d'. write_bytes d off bs = Some d' \<and> object_bytes s' a = Some d' \<and>
    (\<forall>c. c \<noteq> a \<longrightarrow> objects s' c = objects s c) \<and> fresh s' = fresh s \<and> script s' = script s"
  using assms by (auto simp: bind_eq_Some_conv object_bytes_def)

lemma store_at_other [frame]:
  "store_at p bs s = Some s' \<Longrightarrow> dom (objects s') = dom (objects s) \<and> fresh s' = fresh s"
  by (cases p)
    (auto simp: bind_eq_Some_conv object_bytes_def split: option.splits cobject.splits if_splits)

lemma store_ok_dom: "store_ok s \<longleftrightarrow> dom (objects s) \<subseteq> {..< fresh s}"
  by (auto simp: store_ok_def dom_def not_less [symmetric])

end
