(* ===== verification/Ipc_Mmap.thy ===== *)
theory Ipc_Mmap
  imports C_Memory
begin

text \<open>
  \<^verbatim>\<open>core/src/ipc_mmap.c\<close>: shared-memory segments. The system calls are a parameter, the record
  \<open>sys\<close>: their answers may depend on the arguments and on how many calls the process has made
  before. What a call does to the process (its open descriptors, its mappings, the names it has
  created) is written out here: an object of the process's memory is a mapping, a block of the
  heap or a string.
\<close>

section \<open>System calls\<close>

text \<open>An answer is a value or, where the call fails, the error number.\<close>

record sys =
  shm_create :: "nat \<Rightarrow> string \<Rightarrow> nat + u32"
  shm_open :: "nat \<Rightarrow> string \<Rightarrow> nat + u32"
  sys_ftruncate :: "nat \<Rightarrow> nat \<Rightarrow> u64 \<Rightarrow> u32 option"
  sys_fstat :: "nat \<Rightarrow> nat \<Rightarrow> u64 + u32"
  sys_close :: "nat \<Rightarrow> nat \<Rightarrow> u32 option"
  sys_mmap :: "nat \<Rightarrow> nat \<Rightarrow> u64 \<Rightarrow> u8 list + u32"
  sys_munmap :: "nat \<Rightarrow> u64 \<Rightarrow> u32 option"
  sys_unlink :: "nat \<Rightarrow> string \<Rightarrow> u32 option"

record process =
  cmem :: store
  fds :: "nat list"
  names :: "string set"
  calls :: nat

definition set_errno :: "u32 \<Rightarrow> process \<Rightarrow> process" where
  "set_errno e p = p\<lparr>cmem := (cmem p)\<lparr>errno := e\<rparr>\<rparr>"

definition note_call :: "u32 option \<Rightarrow> process \<Rightarrow> process" where
  "note_call failure p =
     (let p = p\<lparr>calls := Suc (calls p)\<rparr>
      in case failure of None \<Rightarrow> p | Some e \<Rightarrow> set_errno e p)"

text \<open>\<open>shm_open(path, O_CREAT | O_EXCL | O_RDWR, mode)\<close> and \<open>shm_open(path, O_RDWR, mode)\<close>.\<close>

definition call_shm_create :: "sys \<Rightarrow> string \<Rightarrow> process \<Rightarrow> nat option \<times> process" where
  "call_shm_create sys name p =
     (case shm_create sys (calls p) name of
        Inl fd \<Rightarrow> (Some fd, (note_call None p)\<lparr>fds := fd # fds p, names := insert name (names p)\<rparr>)
      | Inr e \<Rightarrow> (None, note_call (Some e) p))"

definition call_shm_open :: "sys \<Rightarrow> string \<Rightarrow> process \<Rightarrow> nat option \<times> process" where
  "call_shm_open sys name p =
     (case shm_open sys (calls p) name of
        Inl fd \<Rightarrow> (Some fd, (note_call None p)\<lparr>fds := fd # fds p\<rparr>)
      | Inr e \<Rightarrow> (None, note_call (Some e) p))"

definition call_ftruncate :: "sys \<Rightarrow> nat \<Rightarrow> u64 \<Rightarrow> process \<Rightarrow> bool \<times> process" where
  "call_ftruncate sys fd n p =
     (let failure = sys_ftruncate sys (calls p) fd n in (failure = None, note_call failure p))"

definition call_fstat :: "sys \<Rightarrow> nat \<Rightarrow> process \<Rightarrow> u64 option \<times> process" where
  "call_fstat sys fd p =
     (case sys_fstat sys (calls p) fd of
        Inl n \<Rightarrow> (Some n, note_call None p)
      | Inr e \<Rightarrow> (None, note_call (Some e) p))"

text \<open>
  \<open>close\<close> releases the descriptor even where it reports a failure; closing one that the process
  does not hold could close somebody else's, and is a fault.
\<close>

definition call_close :: "sys \<Rightarrow> nat \<Rightarrow> process \<Rightarrow> process option" where
  "call_close sys fd p =
     (if fd \<in> set (fds p)
      then Some ((note_call (sys_close sys (calls p) fd) p)\<lparr>fds := remove1 fd (fds p)\<rparr>)
      else None)"

definition call_mmap :: "sys \<Rightarrow> nat \<Rightarrow> u64 \<Rightarrow> process \<Rightarrow> ptr option \<times> process" where
  "call_mmap sys fd n p =
     (case sys_mmap sys (calls p) fd n of
        Inl bytes \<Rightarrow>
          (let s = cmem p
           in (Some (Ptr (fresh s) 0), (note_call None p)\<lparr>cmem :=
                 s\<lparr>objects := (objects s)(fresh s \<mapsto> Bytes bytes), fresh := Suc (fresh s)\<rparr>\<rparr>))
      | Inr e \<Rightarrow> (None, note_call (Some e) p))"

text \<open>A range that is not exactly one mapping is a fault.\<close>

fun call_munmap :: "sys \<Rightarrow> ptr \<Rightarrow> u64 \<Rightarrow> process \<Rightarrow> (bool \<times> process) option" where
  "call_munmap sys NULL n p = None"
| "call_munmap sys (Ptr a off) n p =
     (case object_bytes (cmem p) a of
        None \<Rightarrow> None
      | Some d \<Rightarrow>
          if off = 0 \<and> length d = unat n then
            (case sys_munmap sys (calls p) n of
               Some e \<Rightarrow> Some (False, note_call (Some e) p)
             | None \<Rightarrow> Some (True, (note_call None p)\<lparr>cmem :=
                 (cmem p)\<lparr>objects := (objects (cmem p))(a := None)\<rparr>\<rparr>))
          else None)"

definition call_unlink :: "sys \<Rightarrow> string \<Rightarrow> process \<Rightarrow> bool \<times> process" where
  "call_unlink sys name p =
     (case sys_unlink sys (calls p) name of
        None \<Rightarrow> (True, (note_call None p)\<lparr>names := names p - {name}\<rparr>)
      | Some e \<Rightarrow> (False, note_call (Some e) p))"

text \<open>The library's calls of \<open>malloc\<close> and \<open>free\<close> in a process.\<close>

definition call_malloc :: "cobject \<Rightarrow> process \<Rightarrow> ptr \<times> process" where
  "call_malloc obj p = (let (x, s) = malloc obj (cmem p) in (x, p\<lparr>cmem := s\<rparr>))"

definition call_free :: "ptr \<Rightarrow> process \<Rightarrow> process option" where
  "call_free x p = map_option (\<lambda>s. p\<lparr>cmem := s\<rparr>) (free x (cmem p))"

definition EEXIST :: u32 where
  "EEXIST = 17"

section \<open>Segments\<close>

definition name_at :: "ptr \<Rightarrow> process \<Rightarrow> string option" where
  "name_at x p = (case x of
     NULL \<Rightarrow> None
   | Ptr a off \<Rightarrow>
       if off \<noteq> 0 then None
       else (case objects (cmem p) a of Some (Name_Obj name) \<Rightarrow> Some name | _ \<Rightarrow> None))"

definition segment_object :: "ptr \<Rightarrow> process \<Rightarrow> segment_handle option" where
  "segment_object x p = (case x of
     NULL \<Rightarrow> None
   | Ptr a off \<Rightarrow>
       if off \<noteq> 0 then None
       else (case objects (cmem p) a of Some (Segment_Obj h) \<Rightarrow> Some h | _ \<Rightarrow> None))"

record IpcMmapError =
  me_name :: ptr
  me_requested_size :: u64
  me_existing_size :: u64
  me_existed :: bool
  me_sys_errno :: u32

type_synonym IpcMemorySegmentResult = "(ptr, IpcMmapError) ipc_result"

text \<open>The error result that fills in every field, with the \<open>errno\<close> of that moment.\<close>

definition mmap_error :: "IpcStatus \<Rightarrow> string \<Rightarrow> ptr \<Rightarrow> u64 \<Rightarrow> u64 \<Rightarrow> bool \<Rightarrow> process \<Rightarrow>
    IpcMemorySegmentResult \<times> process" where
  "mmap_error st msg path n existing existed p =
     (result_error_body st msg
        \<lparr>me_name = path, me_requested_size = n, me_existing_size = existing, me_existed = existed,
         me_sys_errno = errno (cmem p)\<rparr>, p)"

text \<open>
  The first half of \<open>ipc_mmap\<close>: a descriptor of the segment, created or opened, with its size and
  whether it existed, or the error.
\<close>

definition open_segment :: "sys \<Rightarrow> ptr \<Rightarrow> string \<Rightarrow> u64 \<Rightarrow> process \<Rightarrow>
    ((IpcMemorySegmentResult + nat \<times> u64 \<times> bool) \<times> process) run" where
  "open_segment sys path name n p =
     (let fail = (\<lambda>st msg existing existed p.
            let (r, p) = mmap_error st msg path n existing existed p in Done (Inl r, p))
      in case call_shm_create sys name p of
        (Some fd, p) \<Rightarrow>
          let (ok, p) = call_ftruncate sys fd n p
          in if \<not> ok then
               access (call_close sys fd p)
                 (fail IPC_ERR_SYSTEM ''system error: ftruncate failed'' 0 False)
             else
               (case call_fstat sys fd p of
                  (None, p) \<Rightarrow>
                    access (call_close sys fd p)
                      (fail IPC_ERR_SYSTEM ''system error: fstat failed'' 0 False)
                | (Some st_size, p) \<Rightarrow> Done (Inr (fd, st_size, False), p))
      | (None, p) \<Rightarrow>
          if errno (cmem p) \<noteq> EEXIST then
            fail IPC_ERR_SYSTEM ''system error: shm_open (create) failed'' 0 False p
          else
            (case call_shm_open sys name (set_errno 0 p) of
               (None, p) \<Rightarrow> fail IPC_ERR_SYSTEM ''system error: shm_open (open) failed'' 0 True p
             | (Some fd, p) \<Rightarrow>
                 (case call_fstat sys fd p of
                    (None, p) \<Rightarrow>
                      access (call_close sys fd p)
                        (fail IPC_ERR_SYSTEM ''system error: fstat failed'' 0 True)
                  | (Some st_size, p) \<Rightarrow>
                      if st_size \<noteq> n then
                        access (call_close sys fd p)
                          (fail IPC_ERR_ILLEGAL_STATE
                            ''illegal state: existing segment size != requested size'' st_size True)
                      else Done (Inr (fd, st_size, True), p))))"

text \<open>The second half: the mapping, and the structure that describes it.\<close>

definition map_segment :: "sys \<Rightarrow> ptr \<Rightarrow> string \<Rightarrow> u64 \<Rightarrow> nat \<Rightarrow> u64 \<Rightarrow> bool \<Rightarrow> process \<Rightarrow>
    (IpcMemorySegmentResult \<times> process) run" where
  "map_segment sys path name n fd actual_size existed p =
     (let fail = (\<lambda>msg p. Done (mmap_error IPC_ERR_SYSTEM msg path n 0 existed p));
          (mapped, p) = call_mmap sys fd actual_size p
      in access (call_close sys fd p) (\<lambda>p.
         case mapped of
           None \<Rightarrow> fail ''system error: mmap failed'' p
         | Some mapped \<Rightarrow>
             (case call_malloc (Segment_Obj \<lparr>segment_name = NULL, segment_size = 0, segment_memory = NULL\<rparr>) p of
                (NULL, p) \<Rightarrow>
                  access (call_munmap sys mapped actual_size p) (\<lambda>(_, p).
                    fail ''system error: memory allocation failed'' p)
              | (segment, p) \<Rightarrow>
                  (case call_malloc (Name_Obj name) p of
                     (NULL, p) \<Rightarrow>
                       access (call_munmap sys mapped actual_size p) (\<lambda>(_, p).
                       access (call_free segment p) (\<lambda>p.
                         fail ''system error: memory allocation failed'' p))
                   | (name_copy, p) \<Rightarrow>
                       access (set_object segment
                           (Segment_Obj \<lparr>segment_name = name_copy, segment_size = actual_size,
                                         segment_memory = mapped\<rparr>) (cmem p))
                         (\<lambda>s. Done (result_ok IPC_OK segment, p\<lparr>cmem := s\<rparr>))))))"

definition ipc_mmap :: "sys \<Rightarrow> ptr \<Rightarrow> u64 \<Rightarrow> process \<Rightarrow> (IpcMemorySegmentResult \<times> process) run" where
  "ipc_mmap sys path n p =
     (let error = \<lparr>me_name = NULL, me_requested_size = n, me_existing_size = 0, me_existed = False,
                   me_sys_errno = 0\<rparr>
      in if path = NULL then
           Done (result_error_body IPC_ERR_INVALID_ARGUMENT ''invalid argument: path is NULL'' error, p)
         else if n = 0 then
           Done (result_error_body IPC_ERR_INVALID_ARGUMENT ''invalid argument: size == 0'' error, p)
         else
           access (name_at path p) (\<lambda>name.
           bind_run (open_segment sys path name n p) (\<lambda>(opened, p).
             case opened of
               Inl r \<Rightarrow> Done (r, p)
             | Inr (fd, actual_size, existed) \<Rightarrow>
                 map_segment sys path name n fd actual_size existed p)))"

section \<open>Unmapping and unlinking\<close>

record IpcMmapUnmapError =
  mue_name :: ptr
  mue_size :: u64
  mue_sys_errno :: u32

type_synonym IpcMmapUnmapResult = "(unit, IpcMmapUnmapError) ipc_result"

definition ipc_unmap :: "sys \<Rightarrow> ptr \<Rightarrow> process \<Rightarrow> (IpcMmapUnmapResult \<times> process) run" where
  "ipc_unmap sys segment p =
     (if segment = NULL then
        Done (result_error_body IPC_ERR_INVALID_ARGUMENT ''invalid argument: segment is NULL''
          \<lparr>mue_name = NULL, mue_size = 0, mue_sys_errno = 0\<rparr>, p)
      else access (segment_object segment p) (\<lambda>h.
        if segment_memory h = NULL then
          Done (result_error IPC_ERR_ILLEGAL_STATE ''illegal state: segment->memory is NULL'', p)
        else
          access (call_munmap sys (segment_memory h) (segment_size h) (set_errno 0 p)) (\<lambda>(ok, p).
            if \<not> ok then
              Done (result_error_body IPC_ERR_SYSTEM ''system error: munmap failed''
                \<lparr>mue_name = segment_name h, mue_size = segment_size h,
                 mue_sys_errno = errno (cmem p)\<rparr>, p)
            else
              access (call_free (segment_name h) p) (\<lambda>p.
              access (call_free segment p) (\<lambda>p.
                Done (result_ok IPC_OK (), p))))))"

record IpcMmapUnlinkError =
  mle_name :: ptr
  mle_sys_errno :: u32

type_synonym IpcMmapUnlinkResult = "(unit, IpcMmapUnlinkError) ipc_result"

text \<open>
  The number that \<open>ipc_unlink\<close> reads from the body of an error without a body is indeterminate:
  the parameter \<open>uninit\<close>.
\<close>

definition ipc_unlink :: "sys \<Rightarrow> u32 \<Rightarrow> ptr \<Rightarrow> process \<Rightarrow> (IpcMmapUnlinkResult \<times> process) run" where
  "ipc_unlink sys uninit segment p =
     (if segment = NULL then
        Done (result_error IPC_ERR_INVALID_ARGUMENT ''invalid argument: segment is NULL'', p)
      else access (segment_object segment p) (\<lambda>h.
        access (name_at (segment_name h) p) (\<lambda>name.
          let (ok, p) = call_unlink sys name p
          in if \<not> ok then
               Done (result_error_body IPC_ERR_SYSTEM ''system error: shm_unlink failed''
                 \<lparr>mle_name = segment_name h, mle_sys_errno = errno (cmem p)\<rparr>, p)
             else
               bind_run (ipc_unmap sys segment p) (\<lambda>(unmap_result, p).
                 if is_error unmap_result then
                   access (error_detail unmap_result) (\<lambda>d.
                   access (segment_object segment p) (\<lambda>h.
                     Done (result_error_body (ipc_status unmap_result) d
                       \<lparr>mle_name = segment_name h,
                        mle_sys_errno = (case error_body unmap_result of
                            None \<Rightarrow> uninit | Some b \<Rightarrow> mue_sys_errno b)\<rparr>, p)))
                 else Done (result_ok IPC_OK (), p)))))"

end
