(* ===== verification/Mmap_Spec.thy ===== *)
theory Mmap_Spec
  imports Ipc_Mmap
begin

text \<open>
  What \<open>ipc_mmap\<close>, \<open>ipc_unmap\<close> and \<open>ipc_unlink\<close> leave behind on every branch, for every behaviour
  of the operating system: descriptors, mappings, heap blocks and names.
\<close>

section \<open>Contracts of the system calls\<close>

text \<open>A mapping has the length asked for.\<close>

definition mapping_ok :: "sys \<Rightarrow> bool" where
  "mapping_ok sys \<longleftrightarrow> (\<forall>t fd n bytes. sys_mmap sys t fd n = Inl bytes \<longrightarrow> length bytes = unat n)"

definition munmap_ok :: "sys \<Rightarrow> bool" where
  "munmap_ok sys \<longleftrightarrow> (\<forall>t n. sys_munmap sys t n = None)"

text \<open>Nothing of the memory has changed but \<open>errno\<close>.\<close>

definition same_memory :: "process \<Rightarrow> process \<Rightarrow> bool" where
  "same_memory p p' \<longleftrightarrow> objects (cmem p') = objects (cmem p) \<and> fresh (cmem p') = fresh (cmem p) \<and>
     script (cmem p') = script (cmem p)"

lemma same_memory_refl [simp]: "same_memory p p"
  by (simp add: same_memory_def)

lemma same_memory_trans: "same_memory a b \<Longrightarrow> same_memory b c \<Longrightarrow> same_memory a c"
  by (simp add: same_memory_def)

lemma note_call_facts [simp]:
  "objects (cmem (note_call e p)) = objects (cmem p)" "fresh (cmem (note_call e p)) = fresh (cmem p)"
  "script (cmem (note_call e p)) = script (cmem p)"
  "fds (note_call e p) = fds p" "names (note_call e p) = names p"
  "objects (cmem (set_errno v p)) = objects (cmem p)" "fresh (cmem (set_errno v p)) = fresh (cmem p)"
  "script (cmem (set_errno v p)) = script (cmem p)"
  "fds (set_errno v p) = fds p" "names (set_errno v p) = names p"
  "errno (cmem (set_errno v p)) = v" "calls (note_call e p) = Suc (calls p)" "calls (set_errno v p) = calls p"
  by (simp_all add: note_call_def set_errno_def Let_def split: option.splits)

lemma close_head:
  assumes "fds p = fd # fs"
  obtains p' where "call_close sys fd p = Some p'" and "same_memory p p'" and "fds p' = fs"
    and "names p' = names p"
  using assms by (auto simp: call_close_def same_memory_def)

section \<open>Opening\<close>

definition opened_ok :: "sys \<Rightarrow> string \<Rightarrow> u64 \<Rightarrow> process \<Rightarrow> (IpcMemorySegmentResult + nat \<times> u64 \<times> bool) \<Rightarrow> process \<Rightarrow> bool" where
  "opened_ok sys name n p x p' \<longleftrightarrow> same_memory p p' \<and> names p' \<subseteq> insert name (names p) \<and>
     (case x of
        Inl r \<Rightarrow> fds p' = fds p \<and> (\<exists>b. error_body r = Some b \<and>
          (ipc_status r = IPC_ERR_SYSTEM \<or>
           ipc_status r = IPC_ERR_ILLEGAL_STATE \<and> me_existed b \<and> me_existing_size b \<noteq> n))
      | Inr (fd, actual_size, existed) \<Rightarrow> fds p' = fd # fds p \<and>
          (if existed then actual_size = n else \<exists>t. sys_ftruncate sys t fd n = None \<and> sys_fstat sys (Suc t) fd = Inl actual_size))"

lemma open_segment_ok:
  "\<exists>x p'. open_segment sys path name n p = Done (x, p') \<and> opened_ok sys name n p x p'"
proof (cases "shm_create sys (calls p) name")
  case (Inl fd)
  then show ?thesis
    by (auto simp: open_segment_def call_shm_create_def call_ftruncate_def call_fstat_def call_close_def
        mmap_error_def opened_ok_def same_memory_def Let_def split: sum.splits)
next
  case (Inr e)
  then show ?thesis
    by (auto simp: open_segment_def call_shm_create_def call_shm_open_def call_fstat_def call_close_def
        mmap_error_def opened_ok_def same_memory_def Let_def split: sum.splits)
qed

section \<open>Mapping\<close>

text \<open>What a successful call leaves: three new objects, the segment's fields leading to the others.\<close>

definition segment_mapped :: "string \<Rightarrow> u64 \<Rightarrow> process \<Rightarrow> ptr \<Rightarrow> process \<Rightarrow> bool" where
  "segment_mapped name n p x p' \<longleftrightarrow>
     (let a = fresh (cmem p); b = Suc a; c = Suc b
      in x = Ptr b 0 \<and>
         segment_object x p' = Some \<lparr>segment_name = Ptr c 0, segment_size = n, segment_memory = Ptr a 0\<rparr> \<and>
         (\<exists>d. object_bytes (cmem p') a = Some d \<and> length d = unat n) \<and>
         name_at (Ptr c 0) p' = Some name \<and> fresh (cmem p') = Suc c \<and>
         (\<forall>y. y \<notin> {a, b, c} \<longrightarrow> objects (cmem p') y = objects (cmem p) y))"

lemma segment_mapped_cong:
  assumes "objects (cmem q) = objects (cmem p')" and "fresh (cmem q) = fresh (cmem p')"
  shows "segment_mapped name n p x q = segment_mapped name n p x p'"
  unfolding segment_mapped_def segment_object_def name_at_def object_bytes_def assms ..

lemma map_segment_ok:
  assumes ok: "store_ok (cmem p)" and fs: "fds p = fd # fs" and maps: "mapping_ok sys" and unmaps: "munmap_ok sys"
  shows "\<exists>r p'. map_segment sys path name n fd actual existed p = Done (r, p') \<and> fds p' = fs \<and>
    names p' = names p \<and>
    (ipc_status r = IPC_ERR_SYSTEM \<and> objects (cmem p') = objects (cmem p) \<or>
     (\<exists>x. r = result_ok IPC_OK x \<and> segment_mapped name actual p x p'))"
proof -
  have none: "objects (cmem p) (fresh (cmem p)) = None" "objects (cmem p) (Suc (fresh (cmem p))) = None"
      "objects (cmem p) (Suc (Suc (fresh (cmem p)))) = None"
    using ok by (simp_all add: store_ok_def)
  show ?thesis
  proof (cases "sys_mmap sys (calls p) fd actual")
    case (Inr e)
    then show ?thesis
      using fs by (auto simp: map_segment_def call_mmap_def call_close_def mmap_error_def)
  next
    case (Inl bytes)
    then have len: "length bytes = unat actual"
      using maps by (simp add: mapping_ok_def)
    let ?s = "cmem p"
    show ?thesis
      using Inl fs len none unmaps
      by (auto simp: map_segment_def call_mmap_def call_close_def mmap_error_def call_malloc_def malloc_def
          object_bytes_def munmap_ok_def call_free_def set_object_def segment_mapped_def segment_object_def
          name_at_def Let_def fun_upd_twist split: option.splits)
  qed
qed

lemma ipc_mmap_ok:
  assumes "store_ok (cmem p)" and "name_at path p = Some name" and "n \<noteq> 0"
    and "mapping_ok sys" and "munmap_ok sys"
  shows "\<exists>r p'. ipc_mmap sys path n p = Done (r, p') \<and> fds p' = fds p \<and> names p' \<subseteq> insert name (names p) \<and>
    (case ipc_status r of
       IPC_OK \<Rightarrow> \<exists>x m. r = result_ok IPC_OK x \<and> segment_mapped name m p x p' \<and>
         (m = n \<or> (\<exists>t fd. sys_ftruncate sys t fd n = None \<and> sys_fstat sys (Suc t) fd = Inl m))
     | IPC_ERR_SYSTEM \<Rightarrow> objects (cmem p') = objects (cmem p)
     | IPC_ERR_ILLEGAL_STATE \<Rightarrow> objects (cmem p') = objects (cmem p) \<and>
         (\<exists>b. error_body r = Some b \<and> me_existed b \<and> me_existing_size b \<noteq> n)
     | _ \<Rightarrow> False)"
proof -
  have path: "path \<noteq> NULL"
    using assms(2) by (auto simp: name_at_def)
  obtain x p1 where op: "open_segment sys path name n p = Done (x, p1)" and ok1: "opened_ok sys name n p x p1"
    using open_segment_ok by blast
  show ?thesis
  proof (cases x)
    case (Inl r)
    then show ?thesis
      using op ok1 path assms(2,3) by (auto simp: ipc_mmap_def opened_ok_def same_memory_def)
  next
    case (Inr y)
    obtain fd actual existed where y: "y = (fd, actual, existed)"
      by (cases y)
    have fs: "fds p1 = fd # fds p" and same: "same_memory p p1" and nm: "names p1 \<subseteq> insert name (names p)"
      using ok1 Inr y by (auto simp: opened_ok_def)
    have size: "actual = n \<or> (\<exists>t fd. sys_ftruncate sys t fd n = None \<and> sys_fstat sys (Suc t) fd = Inl actual)"
      using ok1 Inr y by (auto simp: opened_ok_def split: if_split_asm)
    have "store_ok (cmem p1)"
      using assms(1) same by (simp add: store_ok_def same_memory_def)
    from map_segment_ok [where path = path and name = name and n = n and actual = actual and
        existed = existed, OF this fs assms(4,5)] obtain r p' where
      m: "map_segment sys path name n fd actual existed p1 = Done (r, p')" "fds p' = fds p" "names p' = names p1"
      and res: "ipc_status r = IPC_ERR_SYSTEM \<and> objects (cmem p') = objects (cmem p1) \<or>
        (\<exists>x. r = result_ok IPC_OK x \<and> segment_mapped name actual p1 x p')"
      by blast
    have "segment_mapped name actual p x p' = segment_mapped name actual p1 x p'" for x
      using same by (simp add: segment_mapped_def same_memory_def)
    then have outcome: "ipc_status r = IPC_ERR_SYSTEM \<and> objects (cmem p') = objects (cmem p) \<or>
        (\<exists>x. r = result_ok IPC_OK x \<and> segment_mapped name actual p x p')"
      using res same by (simp add: same_memory_def)
    have "ipc_mmap sys path n p = Done (r, p')"
      using op Inr y m(1) path assms(2,3) by (simp add: ipc_mmap_def)
    moreover have "names p' \<subseteq> insert name (names p)"
      using m(3) nm by simp
    moreover have "case ipc_status r of
       IPC_OK \<Rightarrow> \<exists>x m. r = result_ok IPC_OK x \<and> segment_mapped name m p x p' \<and>
         (m = n \<or> (\<exists>t fd. sys_ftruncate sys t fd n = None \<and> sys_fstat sys (Suc t) fd = Inl m))
     | IPC_ERR_SYSTEM \<Rightarrow> objects (cmem p') = objects (cmem p)
     | IPC_ERR_ILLEGAL_STATE \<Rightarrow> objects (cmem p') = objects (cmem p) \<and>
         (\<exists>b. error_body r = Some b \<and> me_existed b \<and> me_existing_size b \<noteq> n)
     | _ \<Rightarrow> False"
      using outcome size by (elim disjE exE conjE) (simp_all, blast+)
    ultimately show ?thesis
      using m(2) by blast
  qed
qed


text \<open>A system on which every call succeeds, and one on which only \<open>mmap\<close> fails.\<close>

definition good_sys :: sys where
  "good_sys = \<lparr>shm_create = (\<lambda>t name. Inl 3), shm_open = (\<lambda>t name. Inl 3),
     sys_ftruncate = (\<lambda>t fd n. None), sys_fstat = (\<lambda>t fd. Inl 256), sys_close = (\<lambda>t fd. None),
     sys_mmap = (\<lambda>t fd n. Inl (replicate (unat n) 0)), sys_munmap = (\<lambda>t n. None),
     sys_unlink = (\<lambda>t name. None)\<rparr>"

definition no_mmap_sys :: sys where
  "no_mmap_sys = good_sys\<lparr>sys_mmap := (\<lambda>t fd n. Inr 12)\<rparr>"

definition named_process :: process where
  "named_process = \<lparr>cmem = \<lparr>objects = [0 \<mapsto> Name_Obj ''/seg''], fresh = 1, script = [], errno = 0\<rparr>,
     fds = [], names = {}, calls = 0\<rparr>"

lemma named_process_facts:
  "store_ok (cmem named_process)" "name_at (Ptr 0 0) named_process = Some ''/seg''"
  "fds named_process = []" "names named_process = {}" "calls named_process = 0"
  "script (cmem named_process) = []"
  by (auto simp: named_process_def store_ok_def name_at_def)

lemma good_sys_facts:
  "mapping_ok good_sys" "munmap_ok good_sys" "mapping_ok no_mmap_sys" "munmap_ok no_mmap_sys"
  by (simp_all add: mapping_ok_def munmap_ok_def good_sys_def no_mmap_sys_def)


section \<open>Releasing\<close>

lemma unmap_mapped:
  assumes m: "segment_mapped name n p x p'" and ok: "store_ok (cmem p)" and unmaps: "munmap_ok sys"
  shows "\<exists>p''. ipc_unmap sys x p' = Done (result_ok IPC_OK (), p'') \<and>
    objects (cmem p'') = objects (cmem p) \<and> fds p'' = fds p' \<and> names p'' = names p'"
proof -
  define a where "a = fresh (cmem p)"
  have none: "objects (cmem p) a = None" "objects (cmem p) (Suc a) = None" "objects (cmem p) (Suc (Suc a)) = None"
    using ok by (simp_all add: store_ok_def a_def)
  obtain d where x: "x = Ptr (Suc a) 0"
    and seg: "objects (cmem p') (Suc a) = Some (Segment_Obj \<lparr>segment_name = Ptr (Suc (Suc a)) 0,
      segment_size = n, segment_memory = Ptr a 0\<rparr>)"
    and d: "objects (cmem p') a = Some (Bytes d)" "length d = unat n"
    and nm: "objects (cmem p') (Suc (Suc a)) = Some (Name_Obj name)"
    and other: "\<And>y. y \<notin> {a, Suc a, Suc (Suc a)} \<Longrightarrow> objects (cmem p') y = objects (cmem p) y"
    using m by (auto simp: segment_mapped_def Let_def a_def segment_object_def object_bytes_def name_at_def
        split: option.split_asm cobject.split_asm)
  have objs: "(objects (cmem p'))(a := None, Suc (Suc a) := None, Suc a := None) = objects (cmem p)"
    using none other by (auto simp: fun_eq_iff)
  have "segment_object x p' = Some \<lparr>segment_name = Ptr (Suc (Suc a)) 0, segment_size = n, segment_memory = Ptr a 0\<rparr>"
    using x seg by (simp add: segment_object_def)
  then show ?thesis
    using x seg d nm objs unmaps
    by (auto simp: ipc_unmap_def object_bytes_def munmap_ok_def call_free_def)
qed

text \<open>
  C35. \<open>ipc_unmap\<close> undoes \<open>ipc_mmap\<close>: after a successful call of each, mappings, heap blocks and
  descriptors are those of before, while the name of the segment stays.
\<close>

theorem mmap_unmap_round_trip:
  assumes "store_ok (cmem p)" and "name_at path p = Some name" and "n \<noteq> 0"
    and "mapping_ok sys" and "munmap_ok sys"
    and "ipc_mmap sys path n p = Done (result_ok IPC_OK x, p')"
  shows "\<exists>p''. ipc_unmap sys x p' = Done (result_ok IPC_OK (), p'') \<and>
    objects (cmem p'') = objects (cmem p) \<and> fds p'' = fds p \<and> names p'' = names p'"
proof -
  have "fds p' = fds p" and "\<exists>m. segment_mapped name m p x p'"
    using ipc_mmap_ok [OF assms(1-5)] assms(6) by (auto simp: result_ok_def)
  then show ?thesis
    using unmap_mapped [OF _ assms(1,5)] by metis
qed

text \<open>Every error of \<open>ipc_mmap\<close> carries its body.\<close>

lemma mmap_error_fst: "mmap_error st msg path n e x p = (r, p') \<Longrightarrow> st < IPC_OK \<Longrightarrow> well_tagged r"
  by (auto simp: mmap_error_def)

lemma ipc_mmap_tagged: "ipc_mmap sys path n p = Done (r, p') \<Longrightarrow> well_tagged r"
  by (auto simp: ipc_mmap_def open_segment_def map_segment_def Let_def elim!: run_elims
      dest!: mmap_error_fst split: if_split_asm option.split_asm sum.split_asm prod.split_asm ptr.split_asm)

text \<open>A system that grants everything, seen from a process whose allocations succeed.\<close>

definition grants :: "sys \<Rightarrow> u64 \<Rightarrow> bool" where
  "grants sys n \<longleftrightarrow> (\<forall>t name. \<exists>fd. shm_create sys t name = Inl fd) \<and>
     (\<forall>t fd m. sys_ftruncate sys t fd m = None) \<and> (\<forall>t fd. sys_fstat sys t fd = Inl n) \<and>
     (\<forall>t fd m. \<exists>bytes. sys_mmap sys t fd m = Inl bytes)"

lemma mmap_granted:
  assumes ok: "store_ok (cmem p)" and path: "name_at path p = Some name" and n: "n \<noteq> 0"
    and sys: "mapping_ok sys" "munmap_ok sys" "grants sys n" and scr: "script (cmem p) = []"
  obtains x p' where "ipc_mmap sys path n p = Done (result_ok IPC_OK x, p')"
    and "segment_mapped name n p x p'" and "names p' = insert name (names p)" and "script (cmem p') = []"
proof -
  obtain fd where fd: "shm_create sys (calls p) name = Inl fd"
    using sys(3) unfolding grants_def by blast
  let ?p1 = "note_call None (note_call None ((note_call None p)\<lparr>fds := fd # fds p, names := insert name (names p)\<rparr>))"
  have op: "open_segment sys path name n p = Done (Inr (fd, n, False), ?p1)"
    using fd sys(3) by (simp add: open_segment_def call_shm_create_def call_ftruncate_def call_fstat_def grants_def)
  obtain bytes where b: "sys_mmap sys (calls ?p1) fd n = Inl bytes"
    using sys(3) unfolding grants_def by blast
  have none: "objects (cmem p) (fresh (cmem p)) = None" "objects (cmem p) (Suc (fresh (cmem p))) = None"
      "objects (cmem p) (Suc (Suc (fresh (cmem p)))) = None"
    using ok by (simp_all add: store_ok_def)
  have "path \<noteq> NULL"
    using path by (auto simp: name_at_def)
  then have "ipc_mmap sys path n p = map_segment sys path name n fd n False ?p1"
    using op path n by (simp add: ipc_mmap_def)
  then have run: "ipc_mmap sys path n p = Done (r, p')"
    if "map_segment sys path name n fd n False ?p1 = Done (r, p')" for r p'
    using that by simp
  obtain x p' where m: "map_segment sys path name n fd n False ?p1 = Done (result_ok IPC_OK x, p')"
    and p': "names p' = insert name (names p)" "script (cmem p') = []"
    using b none scr
    by (auto simp: map_segment_def call_mmap_def call_close_def call_malloc_def malloc_def malloc_fails_def
        set_object_def Let_def)
  have "segment_mapped name n p x p'"
  proof -
    have fs: "fds ?p1 = fd # fds p" and same: "same_memory p ?p1"
      by (simp_all add: same_memory_def)
    have "store_ok (cmem ?p1)"
      using ok by (simp add: store_ok_def)
    from map_segment_ok [where path = path and name = name and n = n and actual = n and
        existed = False, OF this fs sys(1,2)] m have "segment_mapped name n ?p1 x p'"
      by (auto simp: result_ok_def)
    then show ?thesis
      using same by (simp add: segment_mapped_def same_memory_def)
  qed
  then show ?thesis
    using that [OF run [OF m]] p' by blast
qed

lemma good_sys_grants: "grants good_sys 256"
  by (simp add: grants_def good_sys_def)

theorem mmap_unmap_round_trip_witness:
  "\<exists>x p' p''. ipc_mmap good_sys (Ptr 0 0) 256 named_process = Done (result_ok IPC_OK x, p') \<and>
    ipc_unmap good_sys x p' = Done (result_ok IPC_OK (), p'') \<and>
    objects (cmem p'') = objects (cmem named_process)"
proof -
  have n: "(256 :: u64) \<noteq> 0"
    by simp
  obtain x p' where m: "ipc_mmap good_sys (Ptr 0 0) 256 named_process = Done (result_ok IPC_OK x, p')"
    by (rule mmap_granted [OF named_process_facts(1,2) n good_sys_facts(1,2) good_sys_grants
        named_process_facts(6)])
  show ?thesis
    using mmap_unmap_round_trip [OF named_process_facts(1,2) n good_sys_facts(1,2) m] m by blast
qed



text \<open>
  Where \<open>ftruncate\<close> fails, the name that \<open>shm_open\<close> has just created is left behind, although the
  call reports that the segment did not exist.
\<close>

lemma ftruncate_failure_leaves_name:
  assumes "name_at path p = Some name" and "n \<noteq> 0" and "shm_create sys (calls p) name = Inl fd"
    and "sys_ftruncate sys (Suc (calls p)) fd n = Some e"
  shows "\<exists>r p'. ipc_mmap sys path n p = Done (r, p') \<and> ipc_status r = IPC_ERR_SYSTEM \<and>
    name \<in> names p' \<and> (\<exists>b. error_body r = Some b \<and> \<not> me_existed b)"
proof -
  have "path \<noteq> NULL"
    using assms(1) by (auto simp: name_at_def)
  then show ?thesis
    using assms by (auto simp: ipc_mmap_def open_segment_def call_shm_create_def call_ftruncate_def
        call_close_def mmap_error_def Let_def)
qed

end
