(* ===== verification/Ipc_Utils.thy ===== *)
theory Ipc_Utils
  imports Prelude "HOL-Library.While_Combinator"
begin

text \<open>
  \<^verbatim>\<open>core/src/ipc_utils.h\<close> and \<^verbatim>\<open>core/src/ipc_utils.c\<close>: the alignment macros, the search for the
  next power of two, the power-of-two test and the conversion of a \<open>struct timespec\<close> to
  nanoseconds. The two loops double a 64-bit counter, which wraps to 0, so they are
  \<open>while_option\<close> loops: \<open>None\<close> is a loop that never ends.
\<close>

section \<open>Alignment macros\<close>

definition IS_ALIGNED :: "u64 \<Rightarrow> u64 \<Rightarrow> bool" where
  "IS_ALIGNED x align \<longleftrightarrow> x AND (align - 1) = 0"

definition ALIGN_UP :: "u64 \<Rightarrow> u64 \<Rightarrow> u64" where
  "ALIGN_UP s align = (s + (align - 1)) AND NOT (align - 1)"

definition RELATIVE :: "u64 \<Rightarrow> u64 \<Rightarrow> u64" where
  "RELATIVE a m = a AND (m - 1)"

definition CACHE_LINE_SIZE :: u64 where
  "CACHE_LINE_SIZE = 64"

definition ALIGN_UP_BY_CACHE_LINE :: "u64 \<Rightarrow> u64" where
  "ALIGN_UP_BY_CACHE_LINE x = ALIGN_UP x CACHE_LINE_SIZE"

lemma unat_and_not_mask:
  assumes "k \<le> 64"
  shows "unat (x AND NOT (mask k) :: u64) = unat x div 2 ^ k * 2 ^ k"
proof -
  have "x AND NOT (mask k) = push_bit k (drop_bit k x)"
    by (rule bit_word_eqI) (auto simp: bit_simps)
  then have "unat (x AND NOT (mask k)) = take_bit LENGTH(64) (push_bit k (drop_bit k (unat x)))"
    by (simp only: unsigned_push_bit_eq unat_drop_bit_eq)
  then have "unat (x AND NOT (mask k)) = unat x div 2 ^ k * 2 ^ k mod two64"
    by (simp add: drop_bit_eq_div push_bit_eq_mult take_bit_eq_mod)
  moreover have "unat x div 2 ^ k * 2 ^ k < two64"
    using unat_lt_two64 [of x] div_times_less_eq_dividend le_less_trans by blast
  ultimately show ?thesis
    by (simp add: take_bit_eq_mod)
qed

lemma mask_3: "(mask 3 :: u64) = 7"
  by (simp add: mask_eq_exp_minus_1)

lemma unat_ALIGN_UP_8:
  "unat (ALIGN_UP s 8) = (unat s + 7) mod two64 div 8 * 8"
  using unat_and_not_mask [of 3 "s + 7"]
  by (simp add: ALIGN_UP_def mask_3 unat_add_two64)

lemma unat_RELATIVE:
  assumes "unat m = 2 ^ k"
  shows "unat (RELATIVE a m) = unat a mod 2 ^ k"
proof -
  have k: "k < 64"
    using unat_lt_two64 [of m] assms power_less_imp_less_exp [of 2 k 64] by simp
  have "unat (2 ^ k :: u64) = 2 ^ k"
    using k by (simp add: unat_two_power)
  then have "m = 2 ^ k"
    using assms by (simp add: word_unat_eq_iff)
  then have "RELATIVE a m = take_bit k a"
    by (simp add: RELATIVE_def take_bit_eq_mask mask_eq_exp_minus_1)
  then have "unat (RELATIVE a m) = take_bit k (unat a)"
    by (simp only: unsigned_take_bit_eq)
  then show ?thesis
    by (simp only: take_bit_eq_mod)
qed

section \<open>Powers of two\<close>

text \<open>The loop \<open>pow = 1; while (pow < n) pow <<= 1\<close> of both functions.\<close>

definition double_until :: "u64 \<Rightarrow> u64 option" where
  "double_until n = while_option (\<lambda>pow. pow < n) (\<lambda>pow. push_bit 1 pow) 1"

definition find_next_power_of_2 :: "u64 \<Rightarrow> u64 option" where
  "find_next_power_of_2 n = (if n = 0 then Some 1 else double_until n)"

definition is_power_of_2 :: "u64 \<Rightarrow> bool option" where
  "is_power_of_2 n = map_option (\<lambda>res. res = n) (double_until n)"

lemma doubling_iterate: "((\<lambda>pow :: u64. push_bit 1 pow) ^^ j) 1 = 2 ^ j"
  by (induction j) simp_all

lemma pow2_le_2p63: "j < 64 \<Longrightarrow> (2::nat) ^ j \<le> 9223372036854775808"
  using power_increasing [of j 63 "2::nat"] by simp

lemma pow2_less_two64: "(2::nat) ^ k < two64 \<Longrightarrow> k < 64"
  using power_less_imp_less_exp [of "2::nat" k 64] by simp

text \<open>The loop \<open>while (pow < n) pow <<= 1\<close> from 1: it ends exactly when \<open>n\<close> is at most \<open>2\<^sup>6\<^sup>3\<close>.\<close>

lemma doubling_loop_ends:
  assumes "unat n \<le> 9223372036854775808"
  obtains k where "k < 64"
    and "double_until n = Some (2 ^ k)"
    and "unat n \<le> 2 ^ k" and "\<And>j. j < k \<Longrightarrow> 2 ^ j < unat n"
proof -
  let ?stop = "\<lambda>j. \<not> 2 ^ j < n"
  define k where "k = (LEAST j. ?stop j)"
  have ends: "?stop 63"
    using assms by (simp add: word_less_nat_alt unat_two_power)
  have k: "?stop k"
    unfolding k_def using ends by (rule LeastI)
  have "k \<le> 63"
    unfolding k_def using ends by (rule Least_le)
  moreover have "2 ^ j < unat n" if "j < k" for j
  proof -
    have "2 ^ j < n"
      using not_less_Least [of j ?stop] that by (simp add: k_def)
    then show ?thesis
      using that \<open>k \<le> 63\<close> by (simp add: word_less_nat_alt unat_two_power)
  qed
  moreover have "unat n \<le> 2 ^ k"
    using k \<open>k \<le> 63\<close> by (simp add: word_less_nat_alt unat_two_power)
  moreover have "double_until n = Some (2 ^ k)"
    unfolding double_until_def while_option_def doubling_iterate k_def [symmetric]
    using ends by (metis (mono_tags, lifting))
  ultimately show ?thesis
    using that [of k] by simp
qed

lemma doubling_loop_diverges:
  assumes "9223372036854775808 < unat n"
  shows "double_until n = None"
proof -
  have "2 ^ j < n" for j
    using assms pow2_le_2p63 [of j] by (auto simp: word_less_nat_alt unat_two_power)
  then show ?thesis
    unfolding double_until_def while_option_def doubling_iterate by simp
qed

lemma next_power_cases:
  obtains (loops) "9223372036854775808 < unat n" and "find_next_power_of_2 n = None"
    | (found) p k where "unat n \<le> 9223372036854775808" and "find_next_power_of_2 n = Some p"
        and "k < 64" and "unat p = 2 ^ k" and "unat n \<le> 2 ^ k" and "\<And>j. j < k \<Longrightarrow> 2 ^ j < unat n"
proof (cases "unat n \<le> 9223372036854775808")
  case False
  then have "9223372036854775808 < unat n" and "n \<noteq> 0"
    by auto
  then show ?thesis
    using loops by (simp add: find_next_power_of_2_def doubling_loop_diverges)
next
  case small: True
  show ?thesis
  proof (cases "n = 0")
    case True
    then show ?thesis
      using found [of 1 0] by (simp add: find_next_power_of_2_def)
  next
    case False
    obtain k where k: "k < 64" "double_until n = Some (2 ^ k)" "unat n \<le> 2 ^ k"
      "\<And>j. j < k \<Longrightarrow> 2 ^ j < unat n"
      using small by (rule doubling_loop_ends) blast
    then show ?thesis
      using found [of "2 ^ k" k] False small by (simp add: find_next_power_of_2_def unat_two_power)
  qed
qed

lemma is_power_of_2_iff:
  assumes "unat n \<le> 9223372036854775808"
  shows "is_power_of_2 n = Some (\<exists>k. unat n = 2 ^ k)"
proof -
  obtain k where k: "k < 64"
    and loop: "double_until n = Some (2 ^ k)"
    and ge: "unat n \<le> 2 ^ k" and least: "\<And>j. j < k \<Longrightarrow> 2 ^ j < unat n"
    using assms by (rule doubling_loop_ends) blast
  have "2 ^ k = n \<longleftrightarrow> (\<exists>j. unat n = 2 ^ j)"
  proof
    assume "2 ^ k = n"
    then show "\<exists>j. unat n = 2 ^ j"
      using k unat_two_power [of k] by auto
  next
    assume "\<exists>j. unat n = 2 ^ j"
    then obtain j where j: "unat n = 2 ^ j" ..
    have "\<not> j < k"
      using least [of j] j by auto
    moreover have "j \<le> k"
      using ge j by simp
    ultimately show "2 ^ k = n"
      using k j by (simp add: word_unat_eq_iff unat_two_power)
  qed
  then show ?thesis
    by (simp add: is_power_of_2_def loop)
qed

lemma is_power_of_2_diverges:
  "9223372036854775808 < unat n \<Longrightarrow> is_power_of_2 n = None"
  by (simp add: is_power_of_2_def doubling_loop_diverges)

lemma is_power_of_2_Some_True:
  assumes "is_power_of_2 n = Some True"
  obtains k where "unat n = 2 ^ k" and "k < 64"
proof (cases "unat n \<le> 9223372036854775808")
  case True
  then obtain k where k: "unat n = 2 ^ k"
    using assms is_power_of_2_iff by auto
  then have "(2::nat) ^ k < 2 ^ 64"
    using unat_lt_two64 [of n] by simp
  then have "k < 64"
    by (rule power_less_imp_less_exp [rotated]) simp
  with k show ?thesis by (rule that)
next
  case False
  then show ?thesis
    using assms is_power_of_2_diverges [of n] by simp
qed

section \<open>Time\<close>

text \<open>\<open>tv_sec\<close> and \<open>tv_nsec\<close> are signed 64-bit integers on the supported platforms.\<close>

record timespec =
  tv_sec :: u64
  tv_nsec :: u64

definition NANOS_PER_SEC :: u64 where
  "NANOS_PER_SEC = 1000000000"

definition ipc_timespec_to_nanos :: "timespec option \<Rightarrow> u64" where
  "ipc_timespec_to_nanos secs =
     (case secs of None \<Rightarrow> 0 | Some t \<Rightarrow> tv_sec t * NANOS_PER_SEC + tv_nsec t)"

text \<open>The split into seconds and nanoseconds that the channel hands to the futex.\<close>

definition nanos_to_timespec :: "u64 \<Rightarrow> timespec" where
  "nanos_to_timespec n = \<lparr>tv_sec = n div NANOS_PER_SEC, tv_nsec = n mod NANOS_PER_SEC\<rparr>"

text \<open>
  C20. \<open>find_next_power_of_2\<close> terminates for every argument up to \<open>2\<^sup>6\<^sup>3\<close> and returns the least
  power of two that is not below it; for every larger argument the counter wraps to 0 and the
  loop never ends.
\<close>

theorem find_next_power_of_2_spec:
  "(case find_next_power_of_2 n of
      None \<Rightarrow> 9223372036854775808 < unat n
    | Some p \<Rightarrow> unat n \<le> 9223372036854775808 \<and>
        (\<exists>k < 64. unat p = 2 ^ k \<and> unat n \<le> 2 ^ k \<and> {j. unat n \<le> 2 ^ j} = {k..}))"
proof (cases rule: next_power_cases [of n])
  case (found p k)
  have "unat n \<le> 2 ^ j \<longleftrightarrow> k \<le> j" for j
    using found(5) found(6) [of j] power_increasing [of k j "2::nat"]
    by (metis le_trans not_le_imp_less numeral_le_iff one_le_numeral linorder_not_le)
  then have "{j. unat n \<le> 2 ^ j} = {k..}"
    by auto
  then show ?thesis
    using found by auto
qed simp

end
