(* ===== verification/Ipc_Buffer.thy ===== *)
theory Ipc_Buffer
  imports Ipc_Utils Ipc_Common
begin

text \<open>
  \<^verbatim>\<open>core/src/ipc_buffer.c\<close>: the ring buffer. The state is the header of three atomic 64-bit
  words and the bytes of the data area, in which every entry starts with an \<open>EntryHeader\<close>
  (\<open>seq\<close>, \<open>payload_size\<close>, \<open>entry_size\<close>, little-endian). \<open>head\<close> and \<open>tail\<close> count bytes
  modulo \<open>2\<^sup>6\<^sup>4\<close>; bit 0 of each is its lock. A \<open>NULL\<close> pointer is \<open>None\<close>.

  The operations here run without interference from other threads: every statement of the C
  function in order, with the atomic compare-and-exchange and its failure branch. The fuel
  bounds the retries of the compare-and-exchange loops and the recursive calls made after a
  placeholder.
\<close>

section \<open>Layout and state\<close>

record IpcBufferHeader =
  head :: u64
  data_size :: u64
  tail :: u64

record IpcBuffer =
  header :: IpcBufferHeader
  data :: "u8 list"

record EntryHeader =
  seq :: u64
  payload_size :: u64
  entry_size :: u64

definition IPC_DATA_ALIGN :: u64 where
  "IPC_DATA_ALIGN = 8"

definition sizeof_EntryHeader :: u64 where
  "sizeof_EntryHeader = 24"

definition BUFFER_HEADER_SIZE_ALIGNED :: u64 where
  "BUFFER_HEADER_SIZE_ALIGNED = 128"

definition set_head :: "u64 \<Rightarrow> IpcBuffer \<Rightarrow> IpcBuffer" where
  "set_head h b = b\<lparr>header := (header b)\<lparr>head := h\<rparr>\<rparr>"

definition set_tail :: "u64 \<Rightarrow> IpcBuffer \<Rightarrow> IpcBuffer" where
  "set_tail t b = b\<lparr>header := (header b)\<lparr>tail := t\<rparr>\<rparr>"

section \<open>Sizes\<close>

definition ipc_buffer_get_memory_overhead :: u64 where
  "ipc_buffer_get_memory_overhead = BUFFER_HEADER_SIZE_ALIGNED"

definition ipc_buffer_get_min_size :: u64 where
  "ipc_buffer_get_min_size = BUFFER_HEADER_SIZE_ALIGNED + IPC_DATA_ALIGN"

definition ipc_buffer_suggest_size :: "u64 \<Rightarrow> u64 option" where
  "ipc_buffer_suggest_size desired_capacity =
     (let min_size = ipc_buffer_get_min_size;
          overhead = ipc_buffer_get_memory_overhead
      in if desired_capacity + overhead < min_size then Some min_size
         else map_option (\<lambda>aligned_capacity. aligned_capacity + overhead)
                (find_next_power_of_2 desired_capacity))"

section \<open>Locks on the cursors\<close>

definition UNLOCK :: "u64 \<Rightarrow> u64" where
  "UNLOCK off = off AND NOT 1"

definition LOCK :: "u64 \<Rightarrow> u64" where
  "LOCK off = off OR 1"

text \<open>
  \<open>atomic_compare_exchange_strong(ref, &expected, desired)\<close>: whether it succeeded, the new
  value of \<open>*ref\<close> and the new value of \<open>expected\<close>.
\<close>

definition compare_exchange :: "u64 \<Rightarrow> u64 \<Rightarrow> u64 \<Rightarrow> bool \<times> u64 \<times> u64" where
  "compare_exchange ref expected desired =
     (if ref = expected then (True, desired, expected) else (False, ref, ref))"

definition is_aligned :: "u64 \<Rightarrow> bool" where
  "is_aligned off \<longleftrightarrow> ALIGN_UP off IPC_DATA_ALIGN = off"

definition is_locked :: "u64 \<Rightarrow> bool" where
  "is_locked off \<longleftrightarrow> LOCK off = off"

definition lock_ref :: "u64 \<Rightarrow> u64 \<Rightarrow> bool \<times> u64" where
  "lock_ref ref off =
     (let (ok, ref', _) = compare_exchange ref (UNLOCK off) (LOCK off) in (ok, ref'))"

definition unlock_ref :: "u64 \<Rightarrow> u64 \<Rightarrow> bool \<times> u64" where
  "unlock_ref ref off =
     (let (ok, ref', _) = compare_exchange ref (LOCK off) (UNLOCK off) in (ok, ref'))"

definition lock_head :: "u64 \<Rightarrow> IpcBuffer \<Rightarrow> bool \<times> IpcBuffer" where
  "lock_head off b = (let (ok, h) = lock_ref (head (header b)) off in (ok, set_head h b))"

definition unlock_head :: "u64 \<Rightarrow> IpcBuffer \<Rightarrow> bool \<times> IpcBuffer" where
  "unlock_head off b = (let (ok, h) = unlock_ref (head (header b)) off in (ok, set_head h b))"

definition lock_tail :: "u64 \<Rightarrow> IpcBuffer \<Rightarrow> bool \<times> IpcBuffer" where
  "lock_tail off b = (let (ok, t) = lock_ref (tail (header b)) off in (ok, set_tail t b))"

text \<open>The commits: \<open>head\<close> and \<open>tail\<close> move from their locked value to a new value.\<close>

definition advance_head :: "u64 \<Rightarrow> u64 \<Rightarrow> IpcBuffer \<Rightarrow> bool \<times> IpcBuffer" where
  "advance_head off len b =
     (let (ok, h, _) = compare_exchange (head (header b)) (LOCK off) (off + len)
      in (ok, set_head h b))"

definition advance_tail :: "u64 \<Rightarrow> u64 \<Rightarrow> IpcBuffer \<Rightarrow> bool \<times> IpcBuffer" where
  "advance_tail off len b =
     (let (ok, t, _) = compare_exchange (tail (header b)) (LOCK off) (off + len)
      in (ok, set_tail t b))"

definition read_head :: "IpcBuffer \<Rightarrow> u64" where
  "read_head b = head (header b)"

section \<open>Entry headers\<close>

text \<open>The status, and the byte position \<open>*dest\<close> points to where it is assigned.\<close>

definition read_entry_header_unsafe :: "IpcBuffer \<Rightarrow> u64 \<Rightarrow> IpcStatus \<times> nat option" where
  "read_entry_header_unsafe b off =
     (let aligned_head = UNLOCK off;
          t = tail (header b)
      in if aligned_head = UNLOCK t then (IPC_EMPTY, None)
         else let buf_size = data_size (header b);
                  rel_head = RELATIVE aligned_head buf_size
              in if is_locked t then (IPC_ERR_NOT_READY, Some (unat rel_head))
                 else (IPC_OK, Some (unat rel_head)))"

text \<open>
  \<open>None\<close>: the header lies outside the data area. The copied header is \<open>Some\<close> exactly when
  the C function fills all of \<open>*dest\<close>.
\<close>

definition read_entry_header :: "IpcBuffer \<Rightarrow> u64 \<Rightarrow> (IpcStatus \<times> EntryHeader option) option" where
  "read_entry_header b off =
     (case read_entry_header_unsafe b off of
        (st, None) \<Rightarrow> Some (st, None)
      | (st, Some p) \<Rightarrow>
          if st \<noteq> IPC_OK then Some (st, None)
          else do {
            sq \<leftarrow> load_u64 (data b) p;
            if sq = off then do {
              ps \<leftarrow> load_u64 (data b) (p + 8);
              es \<leftarrow> load_u64 (data b) (p + 16);
              Some (if ps = 0 then IPC_PLACEHOLDER else IPC_OK,
                    Some \<lparr>seq = sq, payload_size = ps, entry_size = es\<rparr>)
            }
            else Some (if is_locked off then IPC_ERR_LOCKED else IPC_ERR_NOT_READY, None)
          })"

section \<open>Write\<close>

record IpcBufferWriteError =
  we_offset :: u64
  we_requested_size :: u64
  we_required_size :: u64
  we_free_space :: u64
  we_available_contiguous :: u64
  we_buffer_size :: u64

type_synonym IpcBufferWriteResult = "(unit, IpcBufferWriteError) ipc_result"

definition full_entry_size :: "u64 \<Rightarrow> u64" where
  "full_entry_size n = ALIGN_UP (sizeof_EntryHeader + n) IPC_DATA_ALIGN"

text \<open>
  The \<open>do ... while (!_lock(&tail, tail))\<close> loop: an error result, or the claimed \<open>tail\<close> with
  \<open>rel_tail\<close>, \<open>space_to_wrap\<close> and \<open>placeholder\<close>.
\<close>

fun claim_tail :: "nat \<Rightarrow> u64 \<Rightarrow> u64 \<Rightarrow> IpcBufferWriteError \<Rightarrow> IpcBuffer \<Rightarrow>
    ((IpcBufferWriteResult + u64 \<times> u64 \<times> u64 \<times> bool) \<times> IpcBuffer) run" where
  "claim_tail 0 buf_size full error b = Timeout"
| "claim_tail (Suc n) buf_size full error b =
     (let t = tail (header b)
      in if is_locked t then Done (Inl (result_error_body IPC_ERR_LOCKED ''locked'' error), b)
         else
           let rel_tail = RELATIVE t buf_size;
               space_to_wrap = buf_size - rel_tail;
               h = UNLOCK (read_head b);
               used = t - h;
               free_space = buf_size - used
           in if free_space < full then
                Done (Inl (result_error_body IPC_ERR_NO_SPACE_CONTIGUOUS
                        ''not enough contiguous space in buffer''
                        (error\<lparr>we_offset := t, we_required_size := full,
                               we_free_space := free_space\<rparr>)), b)
              else
                let placeholder = space_to_wrap < full + sizeof_EntryHeader;
                    (ok, b') = lock_tail t b
                in if ok then Done (Inr (t, rel_tail, space_to_wrap, placeholder), b')
                   else claim_tail n buf_size full error b')"

text \<open>The stores into the claimed region, in the order of the code.\<close>

definition store_entry :: "bool \<Rightarrow> u64 \<Rightarrow> u64 \<Rightarrow> u64 \<Rightarrow> u64 \<Rightarrow> u8 list \<Rightarrow> u64 \<Rightarrow> u8 list \<Rightarrow>
    u8 list option" where
  "store_entry placeholder t rel_tail space_to_wrap full bytes n d =
     (let p = unat rel_tail
      in do {
        d \<leftarrow> (if placeholder then do {
                d \<leftarrow> store_u64 d (p + 8) 0;
                store_u64 d (p + 16) space_to_wrap
              }
              else do {
                d \<leftarrow> memcpy d (p + unat sizeof_EntryHeader) bytes (unat n);
                d \<leftarrow> store_u64 d (p + 16) full;
                store_u64 d (p + 8) n
              });
        store_u64 d p t
      })"

fun ipc_buffer_write :: "nat \<Rightarrow> IpcBuffer option \<Rightarrow> u8 list option \<Rightarrow> u64 \<Rightarrow>
    (IpcBufferWriteResult \<times> IpcBuffer option) run" where
  "ipc_buffer_write 0 buffer src n = Timeout"
| "ipc_buffer_write (Suc fuel) buffer src n =
     (let error = \<lparr>we_offset = 0, we_requested_size = n, we_required_size = 0,
                   we_free_space = 0, we_available_contiguous = 0, we_buffer_size = 0\<rparr>
      in case buffer of
           None \<Rightarrow> Done (result_error_body IPC_ERR_INVALID_ARGUMENT
                     ''invalid argument: buffer is NULL'' error, None)
         | Some b \<Rightarrow> (case src of
             None \<Rightarrow> Done (result_error_body IPC_ERR_INVALID_ARGUMENT
                       ''invalid argument: data is NULL'' error, Some b)
           | Some bytes \<Rightarrow>
               if n = 0 then
                 Done (result_error_body IPC_ERR_INVALID_ARGUMENT
                   ''invalid argument: data size is 0'' error, Some b)
               else
                 let buf_size = data_size (header b);
                     full = full_entry_size n
                 in if buf_size < full then
                      Done (result_error_body IPC_ERR_ENTRY_TOO_LARGE
                        ''invalid argument: entry size exceeds buffer''
                        (error\<lparr>we_buffer_size := buf_size\<rparr>), Some b)
                    else
                      bind_run (claim_tail (Suc fuel) buf_size full error b)
                        (\<lambda>(claim, b). case claim of
                           Inl r \<Rightarrow> Done (r, Some b)
                         | Inr (t, rel_tail, space_to_wrap, placeholder) \<Rightarrow>
                             access (store_entry placeholder t rel_tail space_to_wrap full
                                       bytes n (data b)) (\<lambda>d.
                             access (load_u64 d (unat rel_tail + 16)) (\<lambda>es.
                               let (ok, b) = advance_tail t es (b\<lparr>data := d\<rparr>)
                               in if \<not> ok then
                                    Done (result_error_body IPC_ERR_ILLEGAL_STATE
                                      ''illegal state: unexpected tail offset''
                                      (error\<lparr>we_offset := t\<rparr>), Some b)
                                  else if placeholder then ipc_buffer_write fuel (Some b) src n
                                  else Done (result_ok IPC_OK (), Some b))))))"

section \<open>Read\<close>

record IpcBufferReadError =
  re_offset :: u64
  re_required_size :: u64

type_synonym IpcBufferReadResult = "(unit, IpcBufferReadError) ipc_result"

text \<open>
  The \<open>do ... while (!_lock(&head, head))\<close> loop of \<open>ipc_buffer_read\<close> and \<open>ipc_buffer_peek\<close>:
  \<open>Inl\<close> of the locked value that was seen, or \<open>Inr\<close> of the \<open>head\<close> this call has locked.
\<close>

fun claim_head :: "nat \<Rightarrow> IpcBuffer \<Rightarrow> ((u64 + u64) \<times> IpcBuffer) run" where
  "claim_head 0 b = Timeout"
| "claim_head (Suc n) b =
     (let h = read_head b
      in if is_locked h then Done (Inl h, b)
         else let (ok, b') = lock_head h b
              in if ok then Done (Inr h, b') else claim_head n b')"

text \<open>
  \<open>memcpy(dest->payload, bytes, n)\<close>: the new contents behind the pointer and the data area,
  which changes only where the pointer leads into it.
\<close>

fun copy_payload :: "payload_ptr \<Rightarrow> u8 list \<Rightarrow> u8 list \<Rightarrow> (payload_ptr \<times> u8 list) option" where
  "copy_payload Null bytes d = None"
| "copy_payload (Own old) bytes d = map_option (\<lambda>new. (Own new, d)) (write_bytes old 0 bytes)"
| "copy_payload (In_Buffer p) bytes d =
     map_option (\<lambda>d'. (In_Buffer p, d')) (write_bytes d p bytes)"

fun ipc_buffer_read :: "nat \<Rightarrow> IpcBuffer option \<Rightarrow> IpcEntry option \<Rightarrow>
    (IpcBufferReadResult \<times> IpcEntry option \<times> IpcBuffer option) run" where
  "ipc_buffer_read 0 buffer dest = Timeout"
| "ipc_buffer_read (Suc fuel) buffer dest =
     (let error = \<lparr>re_offset = 0, re_required_size = 0\<rparr>;
          illegal = (\<lambda>error. result_error_body IPC_ERR_ILLEGAL_STATE
                      ''illegal state: unexpected head offset'' error)
      in case buffer of
           None \<Rightarrow> Done (result_error_body IPC_ERR_INVALID_ARGUMENT
                     ''invalid argument: buffer is NULL'' error, dest, None)
         | Some b \<Rightarrow> (case dest of
             None \<Rightarrow> Done (result_error_body IPC_ERR_INVALID_ARGUMENT
                       ''invalid argument: dest is NULL'' error, None, Some b)
           | Some entry \<Rightarrow>
               bind_run (claim_head (Suc fuel) b) (\<lambda>(claim, b). case claim of
                 Inl h \<Rightarrow> Done (result_error_body IPC_ERR_LOCKED ''entry is locked''
                            (error\<lparr>re_offset := UNLOCK h\<rparr>), Some entry, Some b)
               | Inr h \<Rightarrow>
                   let dst_cap = entry_len entry
                   in access (read_entry_header b h) (\<lambda>(status, hdr).
                     if status \<noteq> IPC_PLACEHOLDER \<and> status \<noteq> IPC_OK then
                         let (ok, b) = unlock_head h b
                         in if \<not> ok then Done (illegal error, Some entry, Some b)
                            else if status = IPC_EMPTY then
                              Done (result_ok IPC_EMPTY (), Some entry, Some b)
                            else Done (result_error_body status ''unreadable entry state''
                                   (error\<lparr>re_offset := h\<rparr>), Some entry, Some b)
                     else access hdr (\<lambda>e.
                         let rel_offset = RELATIVE h (data_size (header b))
                         in if status = IPC_PLACEHOLDER then
                              let (ok, b) = advance_head h (entry_size e) b
                              in if \<not> ok then Done (illegal error, Some entry, Some b)
                                 else ipc_buffer_read fuel (Some b) (Some entry)
                            else if dst_cap < payload_size e then
                              let error = error\<lparr>re_offset := h, re_required_size := payload_size e\<rparr>;
                                  (ok, b) = unlock_head h b
                              in if \<not> ok then Done (illegal error, Some entry, Some b)
                                 else Done (result_error_body IPC_ERR_TOO_SMALL
                                        ''destination buffer is too small'' error,
                                        Some entry, Some b)
                            else
                              access (read_bytes (data b)
                                  (unat rel_offset + unat sizeof_EntryHeader)
                                  (unat (payload_size e))) (\<lambda>bytes.
                              access (copy_payload (payload entry) bytes (data b)) (\<lambda>(ptr, d).
                                let entry = entry\<lparr>payload := ptr, entry_offset := h,
                                                  entry_len := payload_size e\<rparr>;
                                    (ok, b) = advance_head h (entry_size e) (b\<lparr>data := d\<rparr>)
                                in if \<not> ok then Done (illegal error, Some entry, Some b)
                                   else Done (result_ok IPC_OK (), Some entry, Some b))))))))"

section \<open>Peek\<close>

record IpcBufferPeekError =
  pe_offset :: u64

type_synonym IpcBufferPeekResult = "(unit, IpcBufferPeekError) ipc_result"

fun ipc_buffer_peek :: "nat \<Rightarrow> IpcBuffer option \<Rightarrow> IpcEntry option \<Rightarrow>
    (IpcBufferPeekResult \<times> IpcEntry option \<times> IpcBuffer option) run" where
  "ipc_buffer_peek 0 buffer dest = Timeout"
| "ipc_buffer_peek (Suc fuel) buffer dest =
     (let error = \<lparr>pe_offset = 0\<rparr>;
          illegal = (\<lambda>error. result_error_body IPC_ERR_ILLEGAL_STATE
                      ''illegal state: unexpected head offset'' error)
      in case buffer of
           None \<Rightarrow> Done (result_error_body IPC_ERR_INVALID_ARGUMENT
                     ''invalid argument: buffer is NULL'' error, dest, None)
         | Some b \<Rightarrow> (case dest of
             None \<Rightarrow> Done (result_error_body IPC_ERR_INVALID_ARGUMENT
                       ''invalid argument: dest is NULL'' error, None, Some b)
           | Some entry \<Rightarrow>
               bind_run (claim_head (Suc fuel) b) (\<lambda>(claim, b). case claim of
                 Inl h \<Rightarrow> Done (result_error_body IPC_ERR_LOCKED ''entry is locked''
                            (error\<lparr>pe_offset := UNLOCK h\<rparr>), Some entry, Some b)
               | Inr h \<Rightarrow>
                   access (read_entry_header b h) (\<lambda>(status, hdr).
                     if status \<noteq> IPC_PLACEHOLDER \<and> status \<noteq> IPC_OK then
                         let (ok, b) = unlock_head h b
                         in if \<not> ok then Done (illegal error, Some entry, Some b)
                            else if status = IPC_EMPTY then
                              Done (result_ok IPC_EMPTY (), Some entry, Some b)
                            else Done (result_error_body status ''unreadable entry state''
                                   (error\<lparr>pe_offset := h\<rparr>), Some entry, Some b)
                     else access hdr (\<lambda>e.
                         if status = IPC_PLACEHOLDER then
                           let (ok, b) = advance_head h (entry_size e) b
                           in if \<not> ok then Done (illegal error, Some entry, Some b)
                              else ipc_buffer_peek fuel (Some b) (Some entry)
                         else
                           let rel_offset = RELATIVE h (data_size (header b));
                               entry = entry\<lparr>entry_offset := h, entry_len := payload_size e,
                                 payload := In_Buffer (unat rel_offset + unat sizeof_EntryHeader)\<rparr>;
                               (ok, b) = unlock_head h b
                           in if \<not> ok then Done (illegal error, Some entry, Some b)
                              else Done (result_ok IPC_OK (), Some entry, Some b))))))"

section \<open>Skip\<close>

record IpcBufferSkipError =
  se_offset :: u64

type_synonym IpcBufferSkipResult = "(u64, IpcBufferSkipError) ipc_result"

text \<open>The claiming loop of \<open>ipc_buffer_skip\<close>, which also compares \<open>head\<close> with the given offset.\<close>

fun claim_head_at :: "nat \<Rightarrow> u64 \<Rightarrow> IpcBuffer \<Rightarrow>
    ((IpcBufferSkipResult + u64) \<times> IpcBuffer) run" where
  "claim_head_at 0 off b = Timeout"
| "claim_head_at (Suc n) off b =
     (let h = read_head b
      in if is_locked h then
           Done (Inl (result_error_body IPC_ERR_LOCKED ''entry is locked''
             \<lparr>se_offset = UNLOCK h\<rparr>), b)
         else if UNLOCK h \<noteq> off then
           Done (Inl (result_error_body IPC_ERR_OFFSET_MISMATCH
             ''Offset mismatch: expected different offset than current head''
             \<lparr>se_offset = UNLOCK h\<rparr>), b)
         else let (ok, b') = lock_head h b
              in if ok then Done (Inr h, b') else claim_head_at n off b')"

fun ipc_buffer_skip :: "nat \<Rightarrow> IpcBuffer option \<Rightarrow> u64 \<Rightarrow>
    (IpcBufferSkipResult \<times> IpcBuffer option) run" where
  "ipc_buffer_skip 0 buffer off = Timeout"
| "ipc_buffer_skip (Suc fuel) buffer off =
     (let error = \<lparr>se_offset = off\<rparr>;
          illegal = (\<lambda>error. result_error_body IPC_ERR_ILLEGAL_STATE
                      ''illegal state: unexpected head offset'' error)
      in case buffer of
           None \<Rightarrow> Done (result_error_body IPC_ERR_INVALID_ARGUMENT
                     ''invalid argument: buffer is NULL'' error, None)
         | Some b \<Rightarrow>
             if \<not> is_aligned off then
               Done (result_error_body IPC_ERR_INVALID_ARGUMENT
                 ''invalid argument: offset must be multiple of 8'' error, Some b)
             else
               bind_run (claim_head_at (Suc fuel) off b) (\<lambda>(claim, b). case claim of
                 Inl r \<Rightarrow> Done (r, Some b)
               | Inr h \<Rightarrow>
                   access (read_entry_header b h) (\<lambda>(status, hdr).
                     if status \<noteq> IPC_PLACEHOLDER \<and> status \<noteq> IPC_OK then
                         let (ok, b) = unlock_head h b
                         in if \<not> ok then Done (illegal error, Some b)
                            else if status = IPC_EMPTY then Done (result_ok IPC_EMPTY h, Some b)
                            else Done (result_error_body status ''unreadable entry state''
                                   (error\<lparr>se_offset := h\<rparr>), Some b)
                     else access hdr (\<lambda>e.
                         let (ok, b) = advance_head h (entry_size e) b
                         in if \<not> ok then Done (illegal error, Some b)
                            else if status = IPC_PLACEHOLDER then
                              ipc_buffer_skip fuel (Some b) off
                            else Done (result_ok IPC_OK off, Some b)))))"

section \<open>Forced skip\<close>

record IpcBufferSkipForceError =
  sfe_unit :: bool

type_synonym IpcBufferSkipForceResult = "(u64, IpcBufferSkipForceError) ipc_result"

text \<open>
  No lock is taken: the size is read from the entry at the unlocked \<open>head\<close>, and one
  compare-and-exchange moves \<open>head\<close>. Where it fails it stores the current \<open>head\<close> in the local
  variable, which is the result.
\<close>

definition ipc_buffer_skip_force :: "IpcBuffer option \<Rightarrow>
    (IpcBufferSkipForceResult \<times> IpcBuffer option) run" where
  "ipc_buffer_skip_force buffer =
     (case buffer of
        None \<Rightarrow> Done (result_error_body IPC_ERR_INVALID_ARGUMENT
                  ''invalid argument: buffer is NULL'' \<lparr>sfe_unit = False\<rparr>, None)
      | Some b \<Rightarrow>
          let h = UNLOCK (read_head b);
              (status, ptr) = read_entry_header_unsafe b h
          in if status = IPC_EMPTY then Done (result_ok IPC_EMPTY h, Some b)
             else
               access ptr (\<lambda>p.
               access (load_u64 (data b) (p + 16)) (\<lambda>es.
                 let (ok, h', actual) = compare_exchange (head (header b)) h (h + es);
                     b' = set_head h' b
                 in Done (result_ok (if ok then IPC_OK else IPC_ALREADY_SKIPPED) actual,
                      Some b'))))"

end
