(* ===== verification/Buffer_Ring.thy ===== *)
theory Buffer_Ring
  imports Ipc_Buffer
begin

text \<open>
  The well-formedness of a ring buffer and its abstraction to a queue of messages. Between
  \<open>head\<close> and \<open>tail\<close> the data area holds a chain of entries; a placeholder fills the space up
  to the end of the data area, a message leaves room for one more header before it. The lemmas
  here are the memory part of every operation's proof: what the stores of a writer establish,
  and that they leave the entries between \<open>head\<close> and \<open>tail\<close> alone.
\<close>

section \<open>Locks and cursors\<close>

lemma bit_1_word: "bit (1 :: 'a::len word) i \<longleftrightarrow> i = 0"
  by (simp add: bit_1_iff)

lemma is_locked_iff: "is_locked x \<longleftrightarrow> bit x 0"
proof
  assume "is_locked x"
  then have "bit (x OR 1) 0 = bit x 0"
    by (simp add: is_locked_def LOCK_def)
  then show "bit x 0" by (simp add: bit_simps)
next
  assume "bit x 0"
  then have "x OR 1 = x"
    by (intro bit_word_eqI) (auto simp: bit_simps bit_1_word)
  then show "is_locked x" by (simp add: is_locked_def LOCK_def)
qed

lemma UNLOCK_unlocked [simp]: "\<not> is_locked x \<Longrightarrow> UNLOCK x = x"
  unfolding is_locked_iff UNLOCK_def
  by (intro bit_word_eqI) (auto simp: bit_simps bit_1_word intro: gr0I)

lemma is_locked_LOCK [simp]: "is_locked (LOCK x)"
  by (simp add: is_locked_iff LOCK_def bit_simps)

lemma not_is_locked_UNLOCK [simp]: "\<not> is_locked (UNLOCK x)"
  by (simp add: is_locked_iff UNLOCK_def bit_simps)

lemma UNLOCK_UNLOCK [simp]: "UNLOCK (UNLOCK x) = UNLOCK x"
  by simp

lemma UNLOCK_LOCK [simp]: "UNLOCK (LOCK x) = UNLOCK x"
  unfolding UNLOCK_def LOCK_def
  by (intro bit_word_eqI) (auto simp: bit_simps bit_1_word)

lemma LOCK_neq_unlocked: "\<not> is_locked x \<Longrightarrow> LOCK y \<noteq> x"
  by (metis is_locked_LOCK)

lemma is_locked_odd: "is_locked x \<longleftrightarrow> odd (unat x)"
proof -
  have "bit (unat x) 0 \<longleftrightarrow> bit x 0"
    by (simp only: bit_unsigned_iff) simp
  then show ?thesis
    by (simp only: is_locked_iff bit_0)
qed

lemma aligned_not_locked: "8 dvd unat x \<Longrightarrow> \<not> is_locked x"
  by (auto simp: is_locked_odd elim: dvd_trans [of 2 8, rotated])

lemma lock_head_unlocked [simp]:
  "\<not> is_locked (head (header b)) \<Longrightarrow>
   lock_head (head (header b)) b = (True, set_head (LOCK (head (header b))) b)"
  by (simp add: lock_head_def lock_ref_def compare_exchange_def)

lemma lock_tail_unlocked [simp]:
  "\<not> is_locked (tail (header b)) \<Longrightarrow>
   lock_tail (tail (header b)) b = (True, set_tail (LOCK (tail (header b))) b)"
  by (simp add: lock_tail_def lock_ref_def compare_exchange_def)

lemma set_head_simps [simp]:
  "head (header (set_head h b)) = h"
  "data_size (header (set_head h b)) = data_size (header b)"
  "tail (header (set_head h b)) = tail (header b)"
  "data (set_head h b) = data b"
  "set_head h (set_head h' b) = set_head h b"
  "set_head (head (header b)) b = b"
  "header (b\<lparr>data := d\<rparr>) = header b"
  by (simp_all add: set_head_def)

lemma set_tail_simps [simp]:
  "tail (header (set_tail t b)) = t"
  "data_size (header (set_tail t b)) = data_size (header b)"
  "head (header (set_tail t b)) = head (header b)"
  "data (set_tail t b) = data b"
  "set_tail t (set_tail t' b) = set_tail t b"
  "set_tail (tail (header b)) b = b"
  by (simp_all add: set_tail_def)

lemma set_head_data: "(set_head h b)\<lparr>data := d\<rparr> = set_head h (b\<lparr>data := d\<rparr>)"
  by (simp add: set_head_def)

lemma data_update_same [simp]: "b\<lparr>data := data b\<rparr> = (b :: IpcBuffer)"
  by simp

lemma set_tail_data: "(set_tail t b)\<lparr>data := d\<rparr> = set_tail t (b\<lparr>data := d\<rparr>)"
  by (simp add: set_tail_def)

lemma unlock_head_locked [simp]:
  "unlock_head h (set_head (LOCK h) b) = (True, set_head (UNLOCK h) b)"
  by (simp add: unlock_head_def unlock_ref_def compare_exchange_def)

lemma advance_head_locked [simp]:
  "advance_head h n (set_head (LOCK h) b) = (True, set_head (h + n) b)"
  by (simp add: advance_head_def compare_exchange_def)

lemma advance_tail_locked [simp]:
  "advance_tail t n (set_tail (LOCK t) b) = (True, set_tail (t + n) b)"
  by (simp add: advance_tail_def compare_exchange_def)

section \<open>Entries in the data area\<close>

definition entry_at :: "u8 list \<Rightarrow> nat \<Rightarrow> EntryHeader option" where
  "entry_at d p = do {
     sq \<leftarrow> load_u64 d p;
     ps \<leftarrow> load_u64 d (p + 8);
     es \<leftarrow> load_u64 d (p + 16);
     Some \<lparr>seq = sq, payload_size = ps, entry_size = es\<rparr>
   }"

lemma entry_atI:
  "load_u64 d p = Some (seq e) \<Longrightarrow> load_u64 d (p + 8) = Some (payload_size e) \<Longrightarrow>
   load_u64 d (p + 16) = Some (entry_size e) \<Longrightarrow> entry_at d p = Some e"
  by (simp add: entry_at_def)

lemma entry_at_loads:
  assumes "entry_at d p = Some e"
  shows "load_u64 d p = Some (seq e)" and "load_u64 d (p + 8) = Some (payload_size e)"
    and "load_u64 d (p + 16) = Some (entry_size e)"
  using assms by (auto simp: entry_at_def bind_eq_Some_conv)

abbreviation esize :: "EntryHeader \<Rightarrow> nat" where
  "esize e \<equiv> unat (entry_size e)"

abbreviation psize :: "EntryHeader \<Rightarrow> nat" where
  "psize e \<equiv> unat (payload_size e)"

text \<open>The byte position of an offset in a data area of \<open>B\<close> bytes.\<close>

definition ring_pos :: "nat \<Rightarrow> u64 \<Rightarrow> nat" where
  "ring_pos B off = unat off mod B"

definition is_placeholder :: "EntryHeader \<Rightarrow> bool" where
  "is_placeholder e \<longleftrightarrow> payload_size e = 0"

definition entry_ok :: "nat \<Rightarrow> u64 \<Rightarrow> EntryHeader \<Rightarrow> bool" where
  "entry_ok B off e \<longleftrightarrow>
     seq e = off \<and> 8 dvd esize e \<and> 24 \<le> esize e \<and>
     (if is_placeholder e then ring_pos B off + esize e = B
      else ring_pos B off + esize e + 24 \<le> B \<and> 24 + psize e \<le> esize e)"

fun chain :: "u8 list \<Rightarrow> nat \<Rightarrow> u64 \<Rightarrow> EntryHeader list \<Rightarrow> bool" where
  "chain d B off [] \<longleftrightarrow> True"
| "chain d B off (e # es) \<longleftrightarrow>
     entry_at d (ring_pos B off) = Some e \<and> entry_ok B off e \<and>
     chain d B (off + entry_size e) es"

definition span :: "EntryHeader list \<Rightarrow> nat" where
  "span es = sum_list (map esize es)"

definition payload_bytes :: "u8 list \<Rightarrow> nat \<Rightarrow> EntryHeader \<Rightarrow> u8 list" where
  "payload_bytes d B e = take (psize e) (drop (ring_pos B (seq e) + 24) d)"

definition payloads :: "u8 list \<Rightarrow> nat \<Rightarrow> EntryHeader list \<Rightarrow> u8 list list" where
  "payloads d B es = map (payload_bytes d B) (filter (\<lambda>e. \<not> is_placeholder e) es)"

text \<open>Following the headers from \<open>off\<close> to \<open>t\<close>.\<close>

fun walk :: "nat \<Rightarrow> u8 list \<Rightarrow> nat \<Rightarrow> u64 \<Rightarrow> u64 \<Rightarrow> EntryHeader list" where
  "walk 0 d B off t = []"
| "walk (Suc n) d B off t =
     (if off = t then []
      else case entry_at d (ring_pos B off) of
             None \<Rightarrow> []
           | Some e \<Rightarrow> e # walk n d B (off + entry_size e) t)"

definition capacity :: "IpcBuffer \<Rightarrow> nat" where
  "capacity b = unat (data_size (header b))"

abbreviation head_of :: "IpcBuffer \<Rightarrow> u64" where
  "head_of b \<equiv> UNLOCK (head (header b))"

abbreviation tail_of :: "IpcBuffer \<Rightarrow> u64" where
  "tail_of b \<equiv> UNLOCK (tail (header b))"

definition entries :: "IpcBuffer \<Rightarrow> EntryHeader list" where
  "entries b = walk (length (data b)) (data b) (capacity b) (head_of b) (tail_of b)"

definition messages :: "IpcBuffer \<Rightarrow> u8 list list" where
  "messages b = payloads (data b) (capacity b) (entries b)"

text \<open>The chain \<open>es\<close> fills the ring from \<open>head\<close> to \<open>tail\<close>; locks do not matter.\<close>

definition ring :: "IpcBuffer \<Rightarrow> EntryHeader list \<Rightarrow> bool" where
  "ring b es \<longleftrightarrow>
     is_power_of_2 (data_size (header b)) = Some True \<and>
     capacity b \<le> length (data b) \<and>
     8 dvd unat (head_of b) \<and>
     chain (data b) (capacity b) (head_of b) es \<and>
     span es \<le> capacity b \<and>
     tail_of b = head_of b + word_of_nat (span es) \<and>
     (ring_pos (capacity b) (tail_of b) = 0 \<or>
      ring_pos (capacity b) (tail_of b) + 24 \<le> capacity b)"

definition ring_ok :: "IpcBuffer \<Rightarrow> bool" where
  "ring_ok b \<longleftrightarrow> ring b (entries b)"

definition unlocked :: "IpcBuffer \<Rightarrow> bool" where
  "unlocked b \<longleftrightarrow> \<not> is_locked (head (header b)) \<and> \<not> is_locked (tail (header b))"

lemma span_simps [simp]:
  "span [] = 0" "span (e # es) = esize e + span es" "span (es @ fs) = span es + span fs"
  by (simp_all add: span_def)

lemma payloads_simps [simp]:
  "payloads d B [] = []"
  "payloads d B (e # es) =
     (if is_placeholder e then payloads d B es else payload_bytes d B e # payloads d B es)"
  "payloads d B (es @ fs) = payloads d B es @ payloads d B fs"
  by (simp_all add: payloads_def)

lemma chain_append:
  "chain d B off (es @ fs) \<longleftrightarrow>
     chain d B off es \<and> chain d B (off + word_of_nat (span es)) fs"
  by (induction es arbitrary: off) (auto simp: add.assoc of_nat_add)

lemma chain_span_ge: "chain d B off es \<Longrightarrow> 24 * length es \<le> span es"
  by (induction es arbitrary: off) (fastforce simp: entry_ok_def)+

lemma chain_span_dvd: "chain d B off es \<Longrightarrow> 8 dvd span es"
  by (induction es arbitrary: off) (auto simp: entry_ok_def)

lemma walk_chain:
  assumes "chain d B off es" and "span es < two64" and "length es \<le> n"
  shows "walk n d B off (off + word_of_nat (span es)) = es"
  using assms
proof (induction es arbitrary: off n)
  case Nil
  then show ?case by (cases n) simp_all
next
  case (Cons e es)
  from Cons.prems obtain m where n: "n = Suc m" "length es \<le> m"
    by (cases n) auto
  have ok: "24 \<le> esize e"
    using Cons.prems(1) by (simp add: entry_ok_def)
  have "off \<noteq> off + word_of_nat (span (e # es))"
    using word_add_of_nat_eq_iff [of 0 "span (e # es)" off] Cons.prems(2) ok by simp
  moreover have "off + word_of_nat (span (e # es)) =
      (off + entry_size e) + word_of_nat (span es)"
    by (simp add: add.assoc)
  moreover have "walk m d B (off + entry_size e) ((off + entry_size e) + word_of_nat (span es)) = es"
    using Cons.prems n(2) by (intro Cons.IH) auto
  ultimately show ?case
    using Cons.prems(1) by (simp add: n(1) add.assoc)
qed

lemma ring_capacity:
  assumes "ring b es"
  obtains k where "capacity b = 2 ^ k" and "k < 64"
  using assms is_power_of_2_Some_True [of "data_size (header b)"]
  by (auto simp: ring_def capacity_def)

lemma ring_span_less: "ring b es \<Longrightarrow> span es < two64"
  using unat_lt_two64 [of "data_size (header b)"] by (simp add: ring_def capacity_def)

lemma ring_entries:
  assumes "ring b es"
  shows "entries b = es"
proof -
  have "chain (data b) (capacity b) (head_of b) es"
    using assms by (simp add: ring_def)
  then have "length es \<le> length (data b)"
    using chain_span_ge [of "data b" "capacity b" "head_of b" es] assms
    by (simp add: ring_def)
  then have "walk (length (data b)) (data b) (capacity b) (head_of b)
      (head_of b + word_of_nat (span es)) = es"
    using assms ring_span_less [OF assms] by (intro walk_chain) (simp_all add: ring_def)
  then show ?thesis
    using assms by (simp add: entries_def ring_def)
qed

lemma ring_ok_iff: "ring_ok b \<longleftrightarrow> (\<exists>es. ring b es)"
  by (auto simp: ring_ok_def ring_entries)

lemma ring_messages: "ring b es \<Longrightarrow> messages b = payloads (data b) (capacity b) es"
  by (simp add: messages_def ring_entries)

text \<open>Locks are not part of the invariant.\<close>

lemma ring_unlocked_cursors [simp]:
  "ring (set_head (LOCK (head (header b))) b) es = ring b es"
  "ring (set_tail (LOCK (tail (header b))) b) es = ring b es"
  "capacity (set_head h b) = capacity b"
  "capacity (set_tail t b) = capacity b"
  "capacity (b\<lparr>data := d\<rparr>) = capacity b"
  by (simp_all add: ring_def capacity_def)

section \<open>Memory outside the claimed region\<close>

lemma pos_plus:
  assumes "(B :: nat) = 2 ^ k" and "h mod B + i < B"
  shows "(h + i) mod B = h mod B + i"
  using assms by (metis mod_add_left_eq mod_less)

lemma ring_pos_add:
  assumes "B = 2 ^ k" and "k \<le> 64"
  shows "ring_pos B (off + word_of_nat n) = (unat off + n) mod B"
  using assms by (simp add: ring_pos_def unat_mod_word_of_nat)

lemma ring_pos_entry:
  assumes "B = 2 ^ k" and "k \<le> 64"
  shows "ring_pos B (off + entry_size e) = (unat off + esize e) mod B"
  using ring_pos_add [OF assms, of off "esize e"] by simp

lemma ring_pos_step:
  assumes "B = 2 ^ k" and "k \<le> 64"
  shows "ring_pos B (off + entry_size e) = (ring_pos B off + esize e) mod B"
  using ring_pos_entry [OF assms] by (simp add: ring_pos_def mod_add_left_eq)

text \<open>Two data areas that hold the same bytes in the first \<open>n\<close> ring positions from \<open>off\<close>.\<close>

definition same_ring :: "u8 list \<Rightarrow> u8 list \<Rightarrow> nat \<Rightarrow> nat \<Rightarrow> nat \<Rightarrow> bool" where
  "same_ring d d' B h n \<longleftrightarrow>
     length d' = length d \<and> (\<forall>i < n. d' ! ((h + i) mod B) = d ! ((h + i) mod B))"

lemma same_ring_read:
  assumes same: "same_ring d d' B (unat off) n" and B: "B = 2 ^ k"
    and inside: "ring_pos B off + q + m \<le> B" "q + m \<le> n"
  shows "read_bytes d' (ring_pos B off + q) m = read_bytes d (ring_pos B off + q) m"
proof (rule read_bytes_cong)
  show "length d' = length d"
    using same by (simp add: same_ring_def)
  show "d' ! i = d ! i" if "ring_pos B off + q \<le> i" and "i < ring_pos B off + q + m" for i
  proof -
    define j where "j = i - ring_pos B off"
    have i: "i = ring_pos B off + j" and j: "j < n"
      using that inside(2) by (simp_all add: j_def)
    have "unat off mod B + j < B"
      using that inside(1) by (simp add: i ring_pos_def)
    then have "(unat off + j) mod B = i"
      using B by (simp add: i ring_pos_def pos_plus)
    moreover have "d' ! ((unat off + j) mod B) = d ! ((unat off + j) mod B)"
      using same j by (simp add: same_ring_def)
    ultimately show ?thesis by simp
  qed
qed

lemma entry_at_cong:
  assumes "\<And>q. q \<in> {0, 8, 16} \<Longrightarrow> read_bytes d' (p + q) 8 = read_bytes d (p + q) 8"
  shows "entry_at d' p = entry_at d p"
  using assms [of 0] assms [of 8] assms [of 16] by (simp add: entry_at_def load_u64_def)

lemma payload_bytes_read:
  assumes "ring_pos B (seq e) + 24 + psize e \<le> length d"
  shows "read_bytes d (ring_pos B (seq e) + 24) (psize e) = Some (payload_bytes d B e)"
  using assms by (simp add: read_bytes_def payload_bytes_def)

lemma entry_ok_inside:
  "entry_ok B off e \<Longrightarrow> ring_pos B off + 24 + psize e \<le> B \<and> ring_pos B off + esize e \<le> B
     \<and> 24 + psize e \<le> esize e"
  by (auto simp: entry_ok_def is_placeholder_def split: if_splits)

lemma chain_same_ring:
  assumes "same_ring d d' B (unat off) (span es)" and "B = 2 ^ k" and "k \<le> 64"
    and "B \<le> length d" and "chain d B off es"
  shows "chain d' B off es \<and> payloads d' B es = payloads d B es"
  using assms(1,5)
proof (induction es arbitrary: off)
  case Nil
  then show ?case by simp
next
  case (Cons e es)
  have ok: "entry_ok B off e" and rest: "chain d B (off + entry_size e) es"
    and at: "entry_at d (ring_pos B off) = Some e"
    using Cons.prems(2) by simp_all
  note inside = entry_ok_inside [OF ok]
  have read: "read_bytes d' (ring_pos B off + q) m = read_bytes d (ring_pos B off + q) m"
    if "q + m \<le> 24 + psize e" for q m
    using Cons.prems(1) assms(2) by (rule same_ring_read) (use that inside in simp_all)
  have "entry_at d' (ring_pos B off) = Some e"
    unfolding at [symmetric] by (rule entry_at_cong) (auto intro: read)
  moreover have "payload_bytes d' B e = payload_bytes d B e"
  proof -
    have "seq e = off"
      using ok by (simp add: entry_ok_def)
    then show ?thesis
      using read [of 24 "psize e"] payload_bytes_read [of B e d] payload_bytes_read [of B e d']
        inside assms(4) Cons.prems(1) by (simp add: same_ring_def)
  qed
  moreover have "same_ring d d' B (unat (off + entry_size e)) (span es)"
    unfolding same_ring_def
  proof (intro conjI allI impI)
    show "length d' = length d"
      using Cons.prems(1) by (simp add: same_ring_def)
    fix i assume "i < span es"
    then have "d' ! ((unat off + (esize e + i)) mod B) = d ! ((unat off + (esize e + i)) mod B)"
      using Cons.prems(1) by (simp add: same_ring_def)
    moreover have "(unat (off + entry_size e) + i) mod B = (unat off + (esize e + i)) mod B"
      using ring_pos_entry [OF assms(2,3), of off e]
      by (metis add.assoc mod_add_left_eq ring_pos_def)
    ultimately show "d' ! ((unat (off + entry_size e) + i) mod B) =
        d ! ((unat (off + entry_size e) + i) mod B)" by simp
  qed
  ultimately show ?case
    using Cons.IH rest ok by simp
qed

text \<open>A region after the entries, within the capacity, shares no byte with them.\<close>

lemma ring_region_disjoint:
  assumes "i < n" and "n + m \<le> (B :: nat)" and "j < m"
  shows "(h + i) mod B \<noteq> (h + n + j) mod B"
proof
  assume "(h + i) mod B = (h + n + j) mod B"
  then have "B dvd (h + n + j) - (h + i)"
    using assms(1) mod_eq_dvd_iff_nat [of "h + i" "h + n + j" B] by (metis add.assoc
        add_le_mono le_add1 le_refl less_imp_le_nat order_trans)
  moreover have "0 < (h + n + j) - (h + i)" and "(h + n + j) - (h + i) < B"
    using assms by simp_all
  ultimately show False
    using nat_dvd_not_less by blast
qed

lemma same_ring_update:
  assumes "length d' = length d" and "B = 2 ^ k" and "k \<le> 64" and "B \<le> length d"
    and outside: "\<And>i. i < length d \<Longrightarrow> i < p \<or> p + m \<le> i \<Longrightarrow> d' ! i = d ! i"
    and p: "p = (h + n) mod B" and fits: "n + m \<le> B" "p + m \<le> B"
  shows "same_ring d d' B h n"
  unfolding same_ring_def
proof (intro conjI allI impI)
  show "length d' = length d" by fact
  fix i assume i: "i < n"
  let ?q = "(h + i) mod B"
  have B: "0 < B" using assms(2) by simp
  have "\<not> (p \<le> ?q \<and> ?q < p + m)"
  proof
    assume a: "p \<le> ?q \<and> ?q < p + m"
    define j where "j = ?q - p"
    have j: "j < m" "?q = p + j"
      using a by (auto simp: j_def)
    have "(h + n + j) mod B = p + j"
      using p j(2) B by (metis mod_add_left_eq mod_mod_trivial)
    then show False
      using ring_region_disjoint [OF i fits(1) j(1), of h] j(2) by simp
  qed
  moreover have "?q < length d"
    using B assms(4) mod_less_divisor [of B "h + i"] by linarith
  ultimately show "d' ! ?q = d ! ?q"
    using outside by (meson not_le)
qed

end
