(* ===== verification/Buffer_Write.thy ===== *)
theory Buffer_Write
  imports Buffer_Ring
begin

text \<open>
  \<open>ipc_buffer_write\<close> on a well-formed buffer: its stores stay inside the region it claimed,
  the invariant is kept, and the message is appended to the queue exactly where the result is
  \<open>IPC_OK\<close>.
\<close>

section \<open>The stores of a writer\<close>

lemma store_u64_nth:
  assumes "store_u64 d p w = Some d'" and "i < length d" and "i < p \<or> p + 8 \<le> i"
  shows "d' ! i = d ! i"
  using write_bytes_nth [of d p "le_bytes w" d' i] assms by (auto simp: store_u64_def)

lemma store_placeholder:
  assumes "unat p + 24 \<le> length d"
  obtains d' where "store_entry True t p s full bytes n d = Some d'"
    and "length d' = length d"
    and "entry_at d' (unat p) = Some \<lparr>seq = t, payload_size = 0, entry_size = s\<rparr>"
    and "\<And>i. i < length d \<Longrightarrow> i < unat p \<or> unat p + 24 \<le> i \<Longrightarrow> d' ! i = d ! i"
proof -
  obtain d1 where d1: "store_u64 d (unat p + 8) 0 = Some d1"
    using store_u64_Some [of "unat p + 8" d] assms by auto
  note l1 = length_store_u64 [OF d1]
  obtain d2 where d2: "store_u64 d1 (unat p + 16) s = Some d2"
    using store_u64_Some [of "unat p + 16" d1] assms l1 by auto
  note l2 = length_store_u64 [OF d2]
  obtain d3 where d3: "store_u64 d2 (unat p) t = Some d3"
    using store_u64_Some [of "unat p" d2] assms l1 l2 by auto
  note l3 = length_store_u64 [OF d3]
  have "entry_at d3 (unat p) = Some \<lparr>seq = t, payload_size = 0, entry_size = s\<rparr>"
    using load_store_same [OF d1] load_store_same [OF d2] load_store_same [OF d3]
      load_store_disjoint [OF d2, of "unat p + 8"] load_store_disjoint [OF d3, of "unat p + 8"]
      load_store_disjoint [OF d3, of "unat p + 16"]
    by (intro entry_atI) simp_all
  moreover have "store_entry True t p s full bytes n d = Some d3"
    by (simp add: store_entry_def Let_def d1 d2 d3)
  moreover have "d3 ! i = d ! i" if "i < length d" and "i < unat p \<or> unat p + 24 \<le> i" for i
    using store_u64_nth [OF d1, of i] store_u64_nth [OF d2, of i] store_u64_nth [OF d3, of i]
      that l1 l2 by auto
  ultimately show ?thesis
    using that l1 l2 l3 by metis
qed

lemma store_message:
  assumes "unat p + 24 + unat n \<le> length d" and "unat n \<le> length bytes"
  obtains d' where "store_entry False t p s full bytes n d = Some d'"
    and "length d' = length d"
    and "entry_at d' (unat p) = Some \<lparr>seq = t, payload_size = n, entry_size = full\<rparr>"
    and "read_bytes d' (unat p + 24) (unat n) = Some (take (unat n) bytes)"
    and "\<And>i. i < length d \<Longrightarrow> i < unat p \<or> unat p + 24 + unat n \<le> i \<Longrightarrow> d' ! i = d ! i"
proof -
  let ?bs = "take (unat n) bytes"
  have bs: "read_bytes bytes 0 (unat n) = Some ?bs" "length ?bs = unat n"
    using assms(2) by (simp_all add: read_bytes_def)
  obtain d0 where d0: "write_bytes d (unat p + 24) ?bs = Some d0"
    using assms bs(2) by (auto simp: write_bytes_def)
  note l0 = length_write_bytes [OF d0]
  obtain d1 where d1: "store_u64 d0 (unat p + 16) full = Some d1"
    using store_u64_Some [of "unat p + 16" d0] assms l0 by auto
  note l1 = length_store_u64 [OF d1]
  obtain d2 where d2: "store_u64 d1 (unat p + 8) n = Some d2"
    using store_u64_Some [of "unat p + 8" d1] assms l0 l1 by auto
  note l2 = length_store_u64 [OF d2]
  obtain d3 where d3: "store_u64 d2 (unat p) t = Some d3"
    using store_u64_Some [of "unat p" d2] assms l0 l1 l2 by auto
  note l3 = length_store_u64 [OF d3]
  have "entry_at d3 (unat p) = Some \<lparr>seq = t, payload_size = n, entry_size = full\<rparr>"
    using load_store_same [OF d1] load_store_same [OF d2] load_store_same [OF d3]
      load_store_disjoint [OF d2, of "unat p + 16"] load_store_disjoint [OF d3, of "unat p + 8"]
      load_store_disjoint [OF d3, of "unat p + 16"]
    by (intro entry_atI) simp_all
  moreover have "store_entry False t p s full bytes n d = Some d3"
    by (simp add: store_entry_def Let_def memcpy_def sizeof_EntryHeader_def bs d0 d1 d2 d3)
  moreover have "read_bytes d3 (unat p + 24) (unat n) = Some ?bs"
  proof -
    have "read_bytes d3 (unat p + 24) (unat n) = read_bytes d0 (unat p + 24) (unat n)"
      using read_bytes_write_disjoint [of d0 "unat p + 16" "le_bytes full" d1 "unat p + 24" "unat n"]
        read_bytes_write_disjoint [of d1 "unat p + 8" "le_bytes n" d2 "unat p + 24" "unat n"]
        read_bytes_write_disjoint [of d2 "unat p" "le_bytes t" d3 "unat p + 24" "unat n"]
        d1 d2 d3 by (simp add: store_u64_def)
    then show ?thesis
      using read_bytes_write_same [OF d0] bs(2) by simp
  qed
  moreover have "d3 ! i = d ! i" if "i < length d" and "i < unat p \<or> unat p + 24 + unat n \<le> i" for i
    using write_bytes_nth [OF d0, of i] store_u64_nth [OF d1, of i] store_u64_nth [OF d2, of i]
      store_u64_nth [OF d3, of i] that l0 l1 l2 bs(2) by auto
  ultimately show ?thesis
    using that l0 l1 l2 l3 by metis
qed

section \<open>Appending an entry to the chain\<close>

lemma ring_tail_aligned:
  assumes "ring b es"
  shows "8 dvd unat (tail_of b)"
proof -
  have "8 dvd unat (head_of b) + span es"
    using assms chain_span_dvd by (auto simp: ring_def)
  then have "8 dvd (unat (head_of b) + span es) mod two64"
    by (simp add: dvd_mod)
  then show ?thesis
    using assms ring_span_less [OF assms]
    by (simp add: ring_def unat_add_two64 unat_of_nat_two64)
qed

lemma aligned_add: "8 dvd unat (x :: u64) \<Longrightarrow> 8 dvd unat y \<Longrightarrow> 8 dvd unat (x + y)"
  by (simp add: unat_add_two64 dvd_mod)

lemma ring_extend:
  assumes r: "ring b es" and same: "same_ring (data b) d' (capacity b) (unat (head_of b)) (span es)"
    and at: "entry_at d' (ring_pos (capacity b) (tail_of b)) = Some e"
    and ok: "entry_ok (capacity b) (tail_of b) e" and fits: "span es + esize e \<le> capacity b"
  defines "b' \<equiv> set_tail (tail_of b + entry_size e) (b\<lparr>data := d'\<rparr>)"
  shows "ring b' (es @ [e])"
    and "messages b' = messages b @
      (if is_placeholder e then [] else [payload_bytes d' (capacity b) e])"
    and "\<not> is_locked (tail (header b'))"
proof -
  obtain k where k: "capacity b = 2 ^ k" "k < 64"
    using r by (rule ring_capacity)
  have chain: "chain d' (capacity b) (head_of b) es"
    and pay: "payloads d' (capacity b) es = payloads (data b) (capacity b) es"
    using chain_same_ring [OF same k(1)] k(2) r by (simp_all add: ring_def)
  have t: "tail_of b = head_of b + word_of_nat (span es)"
    using r by (simp add: ring_def)
  have "8 dvd unat (tail_of b + entry_size e)"
    using aligned_add ring_tail_aligned [OF r] ok by (simp add: entry_ok_def)
  then have lck: "\<not> is_locked (tail_of b + entry_size e)"
    by (rule aligned_not_locked)
  then show "\<not> is_locked (tail (header b'))"
    by (simp add: b'_def)
  have pos: "ring_pos (capacity b) (tail_of b + entry_size e) =
      (ring_pos (capacity b) (tail_of b) + esize e) mod capacity b"
    using ring_pos_step [OF k(1)] k(2) by simp
  have room: "ring_pos (capacity b) (tail_of b + entry_size e) = 0 \<or>
      ring_pos (capacity b) (tail_of b + entry_size e) + 24 \<le> capacity b"
    unfolding pos using ok by (auto simp: entry_ok_def split: if_splits)
  show r': "ring b' (es @ [e])"
    using r chain at ok fits t lck room same
    by (simp add: ring_def b'_def chain_append same_ring_def add.assoc)
  show "messages b' = messages b @
      (if is_placeholder e then [] else [payload_bytes d' (capacity b) e])"
    using ring_messages [OF r'] ring_messages [OF r] pay by (simp add: b'_def)
qed

section \<open>Claiming the region\<close>

text \<open>The quantities the writer computes, read as natural numbers.\<close>

lemma full_entry_size_bounds:
  assumes "unat n + 31 < two64"
  shows "8 dvd unat (full_entry_size n)" and "24 + unat n \<le> unat (full_entry_size n)"
    and "unat (full_entry_size n) < 32 + unat n"
proof -
  have "unat (full_entry_size n) = (31 + unat n) div 8 * 8"
    using assms
    by (simp add: full_entry_size_def sizeof_EntryHeader_def IPC_DATA_ALIGN_def unat_ALIGN_UP_8
        unat_add_two64)
  then show "8 dvd unat (full_entry_size n)" and "24 + unat n \<le> unat (full_entry_size n)"
    and "unat (full_entry_size n) < 32 + unat n"
    by simp_all
qed

definition space_to_wrap :: "IpcBuffer \<Rightarrow> nat" where
  "space_to_wrap b = capacity b - ring_pos (capacity b) (tail_of b)"

lemma unat_diff_le: "unat y \<le> unat (x :: u64) \<Longrightarrow> unat (x - y) = unat x - unat y"
  by (simp add: unat_sub word_le_nat_alt)

lemma writer_arith:
  assumes "ring b es" and "\<not> is_locked (tail (header b))"
  shows "unat (RELATIVE (tail (header b)) (data_size (header b))) =
      ring_pos (capacity b) (tail_of b)"
    and "unat (data_size (header b) - RELATIVE (tail (header b)) (data_size (header b))) =
      space_to_wrap b"
    and "unat (data_size (header b) - (tail (header b) - UNLOCK (read_head b))) =
      capacity b - span es"
proof -
  obtain k where k: "capacity b = 2 ^ k" "k < 64"
    using assms(1) by (rule ring_capacity)
  show rel: "unat (RELATIVE (tail (header b)) (data_size (header b))) =
      ring_pos (capacity b) (tail_of b)"
    using unat_RELATIVE [of "data_size (header b)" k "tail (header b)"] k assms(2)
    by (simp add: ring_pos_def capacity_def)
  show "unat (data_size (header b) - RELATIVE (tail (header b)) (data_size (header b))) =
      space_to_wrap b"
    using k(1) by (subst unat_diff_le)
      (simp_all add: rel space_to_wrap_def capacity_def [symmetric] ring_pos_def less_imp_le)
  have "tail (header b) = head_of b + word_of_nat (span es)"
    using assms by (simp add: ring_def)
  then have "unat (tail (header b) - UNLOCK (read_head b)) = span es"
    using ring_span_less [OF assms(1)] by (simp add: read_head_def unat_of_nat_two64)
  then show "unat (data_size (header b) - (tail (header b) - UNLOCK (read_head b))) =
      capacity b - span es"
    using assms(1) by (subst unat_diff_le) (simp_all add: capacity_def ring_def)
qed

text \<open>
  The placeholder never runs into the entries: where the writer finds room for the message but
  wants the space up to the end of the data area for a placeholder, that space is free too.
\<close>

lemma placeholder_fits:
  assumes r: "ring b es" and free: "full \<le> capacity b - span es" and small: "0 < full"
    and wrap: "space_to_wrap b < full + 24"
  shows "span es + space_to_wrap b \<le> capacity b"
proof (cases es)
  case Nil
  then show ?thesis by (simp add: space_to_wrap_def)
next
  case (Cons e es')
  obtain k where k: "capacity b = 2 ^ k" "k < 64"
    using r by (rule ring_capacity)
  let ?B = "capacity b" and ?h = "ring_pos (capacity b) (head_of b)"
  have h: "?h + 24 \<le> ?B"
    using r Cons by (auto simp: ring_def entry_ok_def split: if_splits)
  have "ring_pos ?B (tail_of b) = (unat (head_of b) + span es) mod ?B"
    using ring_pos_add [OF k(1)] k(2) r by (simp add: ring_def)
  then have t: "ring_pos ?B (tail_of b) = (?h + span es) mod ?B"
    by (simp add: ring_pos_def mod_add_left_eq)
  have s: "span es < ?B"
    using free small by simp
  show ?thesis
  proof (cases "?h + span es < ?B")
    case True
    then show ?thesis
      using t by (simp add: space_to_wrap_def)
  next
    case False
    then have "ring_pos ?B (tail_of b) = ?h + span es - ?B"
      using t s h by (simp add: mod_if)
    then show ?thesis
      using False s h free wrap by (simp add: space_to_wrap_def)
  qed
qed

lemma claim_tail_free:
  assumes r: "ring b es" and u: "\<not> is_locked (tail (header b))"
    and full: "unat full \<le> capacity b"
  shows "claim_tail (Suc n) (data_size (header b)) full error b =
    (if capacity b - span es < unat full then
       Done (Inl (result_error_body IPC_ERR_NO_SPACE_CONTIGUOUS
         ''not enough contiguous space in buffer''
         (error\<lparr>we_offset := tail (header b), we_required_size := full,
                we_free_space := word_of_nat (capacity b - span es)\<rparr>)), b)
     else
       Done (Inr (tail (header b), RELATIVE (tail (header b)) (data_size (header b)),
           data_size (header b) - RELATIVE (tail (header b)) (data_size (header b)),
           space_to_wrap b < unat full + 24),
         set_tail (LOCK (tail (header b))) b))"
proof -
  obtain k where k: "capacity b = 2 ^ k" "k < 64"
    using r by (rule ring_capacity)
  have "unat full + 24 < two64"
    using full pow2_le_2p63 [OF k(2)] k(1) by simp
  then have full24: "unat (full + sizeof_EntryHeader) = unat full + 24"
    by (simp add: sizeof_EntryHeader_def unat_add_two64)
  have free: "data_size (header b) - (tail (header b) - UNLOCK (read_head b)) =
      word_of_nat (capacity b - span es)"
    using writer_arith(3) [OF r u] by (metis of_nat_unat ucast_id)
  show ?thesis
    using u writer_arith [OF r u]
    by (simp add: Let_def word_less_nat_alt full24 flip: free)
qed

section \<open>One call of \<open>ipc_buffer_write\<close>\<close>

definition same_frame :: "IpcBuffer \<Rightarrow> IpcBuffer \<Rightarrow> bool" where
  "same_frame b b' \<longleftrightarrow> head (header b') = head (header b) \<and>
     data_size (header b') = data_size (header b) \<and> length (data b') = length (data b)"

lemma same_frame_capacity: "same_frame b b' \<Longrightarrow> capacity b' = capacity b"
  by (simp add: same_frame_def capacity_def)

lemma same_frame_refl: "same_frame b b"
  by (simp add: same_frame_def)

lemma same_frame_trans: "same_frame a b \<Longrightarrow> same_frame b c \<Longrightarrow> same_frame a c"
  by (simp add: same_frame_def)

text \<open>The arguments a caller may pass: a non-empty message that lies in memory.\<close>

definition valid_message :: "u8 list \<Rightarrow> u64 \<Rightarrow> bool" where
  "valid_message bytes n \<longleftrightarrow> n \<noteq> 0 \<and> unat n \<le> length bytes \<and> unat n + 31 < two64"

lemma write_too_large:
  assumes "valid_message bytes n" and "capacity b < unat (full_entry_size n)"
  shows "\<exists>r. ipc_buffer_write (Suc fuel) (Some b) (Some bytes) n = Done (r, Some b) \<and>
    ipc_status r = IPC_ERR_ENTRY_TOO_LARGE"
  using assms by (simp add: valid_message_def Let_def word_less_nat_alt capacity_def)

lemma write_tail_locked:
  assumes "valid_message bytes n" and "unat (full_entry_size n) \<le> capacity b"
    and "is_locked (tail (header b))"
  shows "\<exists>r. ipc_buffer_write (Suc fuel) (Some b) (Some bytes) n = Done (r, Some b) \<and>
    ipc_status r = IPC_ERR_LOCKED"
  using assms by (simp add: valid_message_def Let_def word_less_nat_alt capacity_def)

lemma write_no_space:
  assumes r: "ring b es" and u: "\<not> is_locked (tail (header b))" and msg: "valid_message bytes n"
    and full: "unat (full_entry_size n) \<le> capacity b"
    and free: "capacity b < span es + unat (full_entry_size n)"
  shows "\<exists>r. ipc_buffer_write (Suc fuel) (Some b) (Some bytes) n = Done (r, Some b) \<and>
    ipc_status r = IPC_ERR_NO_SPACE_CONTIGUOUS"
proof -
  have "span es \<le> capacity b"
    using r by (simp add: ring_def)
  then have "capacity b - span es < unat (full_entry_size n)"
    using free by linarith
  then show ?thesis
    using claim_tail_free [OF r u full, of fuel] full msg
    by (simp add: valid_message_def Let_def word_less_nat_alt capacity_def del: claim_tail.simps)
qed

lemma write_message_step:
  assumes r: "ring b es" and u: "\<not> is_locked (tail (header b))" and msg: "valid_message bytes n"
    and free: "unat (full_entry_size n) \<le> capacity b - span es"
    and wrap: "unat (full_entry_size n) + 24 \<le> space_to_wrap b"
  obtains b' e where
    "ipc_buffer_write (Suc fuel) (Some b) (Some bytes) n = Done (result_ok IPC_OK (), Some b')"
    and "ring b' (es @ [e])" and "messages b' = messages b @ [take (unat n) bytes]"
    and "\<not> is_locked (tail (header b'))" and "same_frame b b'"
    and "entry_size e = full_entry_size n"
proof -
  let ?full = "full_entry_size n" and ?t = "tail (header b)" and ?B = "capacity b"
  let ?p = "RELATIVE ?t (data_size (header b))"
  define e where "e = \<lparr>seq = ?t, payload_size = n, entry_size = ?full\<rparr>"
  obtain k where k: "?B = 2 ^ k" "k < 64"
    using r by (rule ring_capacity)
  have B: "?B \<le> length (data b)"
    using r by (simp add: ring_def)
  note full = full_entry_size_bounds [of n] and arith = writer_arith [OF r u]
  have n: "unat n + 31 < two64" "n \<noteq> 0" "unat n \<le> length bytes"
    using msg by (simp_all add: valid_message_def)
  have p: "unat ?p + unat ?full + 24 \<le> ?B"
    using wrap by (simp add: arith(1) space_to_wrap_def)
  have inside: "unat ?p + 24 + unat n \<le> length (data b)"
    using p full(2) n(1) B by linarith
  obtain d' where d': "store_entry False ?t ?p (data_size (header b) - ?p) ?full bytes n (data b) = Some d'"
    and len: "length d' = length (data b)" and at: "entry_at d' (unat ?p) = Some e"
    and pay: "read_bytes d' (unat ?p + 24) (unat n) = Some (take (unat n) bytes)"
    and out: "\<And>i. i < length (data b) \<Longrightarrow> i < unat ?p \<or> unat ?p + 24 + unat n \<le> i \<Longrightarrow>
        d' ! i = data b ! i"
    unfolding e_def by (rule store_message [OF inside n(3)]) blast
  have pos: "unat ?p = (unat (head_of b) + span es) mod ?B"
    using arith(1) ring_pos_add [OF k(1)] k(2) r by (simp add: ring_def)
  have same: "same_ring (data b) d' ?B (unat (head_of b)) (span es)"
    by (rule same_ring_update [where m = "24 + unat n", OF len k(1) _ B _ pos])
      (use k(2) free p full(2) n r out in \<open>simp_all add: ring_def add.assoc\<close>)
  have ok: "entry_ok ?B (tail_of b) e"
    using p full n u by (simp add: entry_ok_def e_def is_placeholder_def arith(1))
  have fits: "span es + esize e \<le> ?B"
    using free full(2) n(1) by (simp add: e_def)
  have at': "entry_at d' (ring_pos ?B (tail_of b)) = Some e"
    using at by (simp add: arith(1))
  have bytes': "payload_bytes d' ?B e = take (unat n) bytes"
    using pay arith(1) u by (auto simp: e_def payload_bytes_def read_bytes_def split: if_splits)
  have le_B: "unat ?full \<le> ?B"
    using free by simp
  let ?b' = "set_tail (tail_of b + entry_size e) (b\<lparr>data := d'\<rparr>)"
  note ext = ring_extend [OF r same at' ok fits]
  have "ipc_buffer_write (Suc fuel) (Some b) (Some bytes) n = Done (result_ok IPC_OK (), Some ?b')"
    using claim_tail_free [OF r u le_B, of fuel] free wrap n d' entry_at_loads(3) [OF at] u le_B
    by (simp add: Let_def word_less_nat_alt capacity_def e_def set_tail_data del: claim_tail.simps)
  then show ?thesis
    using that ext bytes' n len
    by (simp add: e_def is_placeholder_def same_frame_def)
qed

lemma write_placeholder_step:
  assumes r: "ring b es" and u: "\<not> is_locked (tail (header b))" and msg: "valid_message bytes n"
    and free: "unat (full_entry_size n) \<le> capacity b - span es"
    and wrap: "space_to_wrap b < unat (full_entry_size n) + 24"
  obtains b' e where
    "ipc_buffer_write (Suc fuel) (Some b) (Some bytes) n = ipc_buffer_write fuel (Some b') (Some bytes) n"
    and "ring b' (es @ [e])" and "messages b' = messages b"
    and "\<not> is_locked (tail (header b'))" and "same_frame b b'"
    and "esize e = space_to_wrap b" and "ring_pos (capacity b) (tail_of b') = 0"
proof -
  let ?full = "full_entry_size n" and ?t = "tail (header b)" and ?B = "capacity b"
  let ?p = "RELATIVE ?t (data_size (header b))"
  let ?s = "data_size (header b) - ?p"
  define e where "e = \<lparr>seq = ?t, payload_size = 0, entry_size = ?s\<rparr>"
  obtain k where k: "?B = 2 ^ k" "k < 64"
    using r by (rule ring_capacity)
  have B: "?B \<le> length (data b)"
    using r by (simp add: ring_def)
  note arith = writer_arith [OF r u]
  have n: "unat n + 31 < two64" "n \<noteq> 0" "unat n \<le> length bytes"
    using msg by (simp_all add: valid_message_def)
  note full = full_entry_size_bounds [OF n(1)]
  have B32: "24 \<le> ?B"
    using free full(2) by simp
  have p: "unat ?p + 24 \<le> ?B" "unat ?p + unat ?s = ?B"
    using r B32 k(1) arith(1,2) by (auto simp: ring_def space_to_wrap_def ring_pos_def less_imp_le)
  have s8: "8 dvd unat ?s"
  proof -
    have "3 \<le> k"
    proof (rule ccontr)
      assume "\<not> 3 \<le> k"
      then have "(2::nat) ^ k \<le> 2 ^ 2"
        by (intro power_increasing) simp_all
      then show False using B32 k(1) by simp
    qed
    then have "(8::nat) dvd ?B"
      using le_imp_power_dvd [of 3 k "2::nat"] k(1) by simp
    moreover have "8 dvd unat ?p"
      using ring_tail_aligned [OF r] \<open>8 dvd ?B\<close> by (simp add: arith(1) ring_pos_def dvd_mod)
    ultimately show ?thesis
      using p(2) by (metis dvd_add_right_iff)
  qed
  obtain d' where d': "store_entry True ?t ?p ?s ?full bytes n (data b) = Some d'"
    and len: "length d' = length (data b)" and at: "entry_at d' (unat ?p) = Some e"
    and out: "\<And>i. i < length (data b) \<Longrightarrow> i < unat ?p \<or> unat ?p + 24 \<le> i \<Longrightarrow> d' ! i = data b ! i"
    unfolding e_def by (rule store_placeholder [OF le_trans [OF p(1) B]]) blast
  have room: "span es + space_to_wrap b \<le> ?B"
    using placeholder_fits [OF r free _ wrap] full(2) by simp
  have pos: "unat ?p = (unat (head_of b) + span es) mod ?B"
    using arith(1) ring_pos_add [OF k(1)] k(2) r by (simp add: ring_def)
  have same: "same_ring (data b) d' ?B (unat (head_of b)) (span es)"
    by (rule same_ring_update [OF len k(1) _ B out pos])
      (use k(2) room p arith(2) in simp_all)
  have ok: "entry_ok ?B (tail_of b) e"
    using p s8 u by (simp add: entry_ok_def e_def is_placeholder_def arith(1))
  have fits: "span es + esize e \<le> ?B"
    using room arith(2) by (simp add: e_def)
  have at': "entry_at d' (ring_pos ?B (tail_of b)) = Some e"
    using at by (simp add: arith(1))
  have le_B: "unat ?full \<le> ?B"
    using free by simp
  let ?b' = "set_tail (tail_of b + entry_size e) (b\<lparr>data := d'\<rparr>)"
  note ext = ring_extend [OF r same at' ok fits]
  have "ipc_buffer_write (Suc fuel) (Some b) (Some bytes) n =
      ipc_buffer_write fuel (Some ?b') (Some bytes) n"
    using claim_tail_free [OF r u le_B, of fuel] free wrap n d' entry_at_loads(3) [OF at] u le_B
    by (simp add: Let_def word_less_nat_alt capacity_def e_def set_tail_data del: claim_tail.simps
        ipc_buffer_write.simps(1))
  moreover have "ring_pos ?B (tail_of ?b') = 0"
    using ext(3) ring_pos_step [OF k(1), of "tail_of b" e] k(2) p arith(1)
    by (simp add: e_def)
  ultimately show ?thesis
    using that [of ?b' e] ext len arith(2)
    by (simp add: e_def is_placeholder_def same_frame_def)
qed

section \<open>The whole operation\<close>

text \<open>
  When a message is accepted: its entry and room for one more header fit before the end of the
  data area, or the entry fits after the space up to the end is given to a placeholder.
\<close>

definition write_fits :: "IpcBuffer \<Rightarrow> u64 \<Rightarrow> bool" where
  "write_fits b n \<longleftrightarrow>
     (let full = unat (full_entry_size n); used = span (entries b)
      in if full + 24 \<le> space_to_wrap b then used + full \<le> capacity b
         else used + space_to_wrap b + full \<le> capacity b \<and> full + 24 \<le> capacity b)"

lemma write_no_placeholder:
  assumes r: "ring b es" and u: "\<not> is_locked (tail (header b))" and msg: "valid_message bytes n"
    and wrap: "unat (full_entry_size n) + 24 \<le> space_to_wrap b"
  shows "\<exists>r b'. ipc_buffer_write (Suc fuel) (Some b) (Some bytes) n = Done (r, Some b') \<and>
    (\<exists>fs. ring b' (es @ fs)) \<and> same_frame b b' \<and> \<not> is_locked (tail (header b')) \<and>
    (if span es + unat (full_entry_size n) \<le> capacity b
     then ipc_status r = IPC_OK \<and> messages b' = messages b @ [take (unat n) bytes]
     else ipc_status r = IPC_ERR_NO_SPACE_CONTIGUOUS \<and> messages b' = messages b)"
proof (cases "span es + unat (full_entry_size n) \<le> capacity b")
  case True
  then have "unat (full_entry_size n) \<le> capacity b - span es"
    by simp
  from write_message_step [OF r u msg this wrap] obtain b' e where
    "ipc_buffer_write (Suc fuel) (Some b) (Some bytes) n = Done (result_ok IPC_OK (), Some b')"
    and "ring b' (es @ [e])" and "messages b' = messages b @ [take (unat n) bytes]"
    and "\<not> is_locked (tail (header b'))" and "same_frame b b'"
    by metis
  then show ?thesis
    using True by (auto simp del: ipc_buffer_write.simps)
next
  case False
  have "unat (full_entry_size n) \<le> capacity b"
    using wrap by (simp add: space_to_wrap_def)
  moreover have "capacity b < span es + unat (full_entry_size n)"
    using False by simp
  ultimately obtain res where
    "ipc_buffer_write (Suc fuel) (Some b) (Some bytes) n = Done (res, Some b)"
    and "ipc_status res = IPC_ERR_NO_SPACE_CONTIGUOUS"
    using write_no_space [OF r u msg] by blast
  then show ?thesis
    using False r u
    by (auto simp: same_frame_refl simp del: ipc_buffer_write.simps intro!: exI [of _ "[]"])
qed

lemma ipc_buffer_write_correct:
  assumes r: "ring b es" and u: "\<not> is_locked (tail (header b))" and msg: "valid_message bytes n"
    and fuel: "2 \<le> fuel"
  shows "\<exists>r b'. ipc_buffer_write fuel (Some b) (Some bytes) n = Done (r, Some b') \<and>
    (\<exists>fs. ring b' (es @ fs)) \<and> same_frame b b' \<and> \<not> is_locked (tail (header b')) \<and>
    (if write_fits b n
     then ipc_status r = IPC_OK \<and> messages b' = messages b @ [take (unat n) bytes]
     else messages b' = messages b \<and>
       ipc_status r = (if capacity b < unat (full_entry_size n) then IPC_ERR_ENTRY_TOO_LARGE
                       else IPC_ERR_NO_SPACE_CONTIGUOUS))"
proof -
  obtain f where f: "fuel = Suc (Suc f)"
    using fuel by (metis add_2_eq_Suc le_Suc_ex)
  let ?full = "unat (full_entry_size n)"
  have es: "entries b = es"
    using r by (rule ring_entries)
  have n: "unat n + 31 < two64"
    using msg by (simp add: valid_message_def)
  have pos: "0 < ?full"
    using full_entry_size_bounds(2) [OF n] by simp
  consider (large) "capacity b < ?full"
    | (straight) "?full \<le> capacity b" "?full + 24 \<le> space_to_wrap b"
    | (full) "?full \<le> capacity b" "space_to_wrap b < ?full + 24" "capacity b < span es + ?full"
    | (wrap) "space_to_wrap b < ?full + 24" "span es + ?full \<le> capacity b"
    by linarith
  then show ?thesis
  proof cases
    case large
    moreover have "\<not> write_fits b n"
      using large by (auto simp: write_fits_def Let_def space_to_wrap_def)
    ultimately show ?thesis
      using write_too_large [OF msg large, of "Suc f"] r u
      by (auto simp: f same_frame_refl simp del: ipc_buffer_write.simps intro!: exI [of _ "[]"])
  next
    case straight
    have "write_fits b n \<longleftrightarrow> span es + ?full \<le> capacity b"
      using straight by (simp add: write_fits_def es Let_def)
    moreover have "\<not> capacity b < ?full"
      using straight by simp
    ultimately show ?thesis
      using write_no_placeholder [OF r u msg straight(2), of "Suc f"]
      by (simp add: f conj_commute del: ipc_buffer_write.simps cong: conj_cong)
        (metis (no_types, lifting))
  next
    case full
    have "\<not> write_fits b n"
      using full by (simp add: write_fits_def es Let_def)
    then show ?thesis
      using write_no_space [OF r u msg full(1), of "Suc f"] full r u
      by (auto simp: f same_frame_refl simp del: ipc_buffer_write.simps intro!: exI [of _ "[]"])
  next
    case wrap
    then have "?full \<le> capacity b - span es" by simp
    from write_placeholder_step [OF r u msg this wrap(1), of "Suc f"] obtain b1 e where
      step: "ipc_buffer_write fuel (Some b) (Some bytes) n =
          ipc_buffer_write (Suc f) (Some b1) (Some bytes) n"
      and r1: "ring b1 (es @ [e])" and m1: "messages b1 = messages b"
      and u1: "\<not> is_locked (tail (header b1))" and fr: "same_frame b b1"
      and e: "esize e = space_to_wrap b" and z: "ring_pos (capacity b) (tail_of b1) = 0"
      unfolding f by metis
    have cap: "capacity b1 = capacity b"
      using fr by (rule same_frame_capacity)
    have s1: "space_to_wrap b1 = capacity b"
      using z by (simp add: space_to_wrap_def cap)
    have fits: "write_fits b n \<longleftrightarrow>
        span es + space_to_wrap b + ?full \<le> capacity b \<and> ?full + 24 \<le> capacity b"
      using wrap by (simp add: write_fits_def es Let_def)
    have le: "\<not> capacity b < ?full"
      using wrap(2) by simp
    show ?thesis
    proof (cases "?full + 24 \<le> capacity b")
      case True
      have "span (es @ [e]) + ?full \<le> capacity b1 \<longleftrightarrow> write_fits b n"
        using True by (simp add: fits e cap)
      moreover have "?full + 24 \<le> space_to_wrap b1"
        using True by (simp add: s1)
      ultimately obtain res b2 where
        w: "ipc_buffer_write (Suc f) (Some b1) (Some bytes) n = Done (res, Some b2)"
          "\<exists>fs. ring b2 ((es @ [e]) @ fs)" "same_frame b1 b2" "\<not> is_locked (tail (header b2))"
          "if write_fits b n then ipc_status res = IPC_OK \<and>
             messages b2 = messages b1 @ [take (unat n) bytes]
           else ipc_status res = IPC_ERR_NO_SPACE_CONTIGUOUS \<and> messages b2 = messages b1"
        using write_no_placeholder [OF r1 u1 msg, of f] by auto
      have "same_frame b b2"
        using fr w(3) by (rule same_frame_trans)
      then show ?thesis
        using w step le m1 by (auto split: if_splits simp del: ipc_buffer_write.simps)
    next
      case False
      have "24 \<le> space_to_wrap b"
        using r1 e by (auto simp: ring_def chain_append entry_ok_def)
      then have "capacity b1 < span (es @ [e]) + ?full" and "?full \<le> capacity b1"
        using False wrap e cap pos by simp_all
      then obtain res where w: "ipc_buffer_write (Suc f) (Some b1) (Some bytes) n = Done (res, Some b1)"
          "ipc_status res = IPC_ERR_NO_SPACE_CONTIGUOUS"
        using write_no_space [OF r1 u1 msg, of f] by blast
      show ?thesis
        using w step le m1 r1 u1 fr fits False
        by (auto simp del: ipc_buffer_write.simps)
    qed
  qed
qed

end
