(* ===== verification/Buffer_Read.thy ===== *)
theory Buffer_Read
  imports Buffer_Ring
begin

text \<open>
  The consumer's operations on a well-formed buffer: \<open>ipc_buffer_read\<close>, \<open>ipc_buffer_peek\<close>,
  \<open>ipc_buffer_skip\<close> and \<open>ipc_buffer_skip_force\<close>. Each reads the header of the first entry of
  the chain, and each that consumes moves \<open>head\<close> by its size, which drops it from the chain.
\<close>

section \<open>The first entry\<close>

lemma claim_head_unlocked:
  "\<not> is_locked (head (header b)) \<Longrightarrow>
   claim_head (Suc n) b = Done (Inr (head (header b)), set_head (LOCK (head (header b))) b)"
  by (simp add: read_head_def Let_def)

lemma claim_head_locked:
  "is_locked (head (header b)) \<Longrightarrow> claim_head (Suc n) b = Done (Inl (head (header b)), b)"
  by (simp add: read_head_def Let_def)

lemma ring_head_neq_tail:
  assumes "ring b (e # es)"
  shows "head_of b \<noteq> tail_of b"
proof -
  have "0 < span (e # es)"
    using assms by (auto simp: ring_def entry_ok_def)
  then show ?thesis
    using word_add_of_nat_eq_iff [of 0 "span (e # es)" "head_of b"] ring_span_less [OF assms] assms
    by (simp add: ring_def del: span_simps)
qed

lemma ring_head_pos:
  assumes "ring b es"
  shows "unat (RELATIVE (head_of b) (data_size (header b))) = ring_pos (capacity b) (head_of b)"
proof -
  obtain k where "capacity b = 2 ^ k"
    using assms by (rule ring_capacity)
  then show ?thesis
    using unat_RELATIVE [of "data_size (header b)" k "head_of b"]
    by (simp add: ring_pos_def capacity_def)
qed

lemma read_entry_header_unsafe_ring:
  assumes "ring b es" and "UNLOCK h = head_of b"
  shows "read_entry_header_unsafe (set_head x b) h =
    (case es of [] \<Rightarrow> (IPC_EMPTY, None)
     | e # _ \<Rightarrow> (if is_locked (tail (header b)) then IPC_ERR_NOT_READY else IPC_OK,
                Some (ring_pos (capacity b) (head_of b))))"
proof (cases es)
  case Nil
  then show ?thesis
    using assms by (simp add: read_entry_header_unsafe_def ring_def)
next
  case (Cons e es')
  then show ?thesis
    using assms ring_head_neq_tail [of b e es'] ring_head_pos [OF assms(1)]
    by (simp add: read_entry_header_unsafe_def Let_def)
qed

lemma read_entry_header_ring:
  assumes r: "ring b es" and u: "\<not> is_locked (head (header b))"
  shows "read_entry_header (set_head x b) (head (header b)) =
    (case es of [] \<Rightarrow> Some (IPC_EMPTY, None)
     | e # _ \<Rightarrow> if is_locked (tail (header b)) then Some (IPC_ERR_NOT_READY, None)
               else Some (if is_placeholder e then IPC_PLACEHOLDER else IPC_OK, Some e))"
proof (cases es)
  case Nil
  then show ?thesis
    using read_entry_header_unsafe_ring [OF r refl, of x] u by (simp add: read_entry_header_def)
next
  case (Cons e es')
  have "entry_at (data b) (ring_pos (capacity b) (head_of b)) = Some e"
    and sq: "seq e = head (header b)"
    using r Cons u by (simp_all add: ring_def entry_ok_def)
  note at = entry_at_loads [OF this(1)]
  have e: "e = \<lparr>seq = head (header b), payload_size = payload_size e, entry_size = entry_size e\<rparr>"
    by (simp add: sq [symmetric])
  have "read_entry_header_unsafe (set_head x b) (head (header b)) =
      (if is_locked (tail (header b)) then IPC_ERR_NOT_READY else IPC_OK,
       Some (ring_pos (capacity b) (head_of b)))"
    using read_entry_header_unsafe_ring [OF r, of "head (header b)" x] Cons by simp
  then show ?thesis
    using Cons at(2,3) at(1) [unfolded sq] e
    by (simp add: read_entry_header_def is_placeholder_def)
qed

lemma ring_advance:
  assumes r: "ring b (e # es)"
  defines "b' \<equiv> set_head (head_of b + entry_size e) b"
  shows "ring b' es"
    and "messages b = (if is_placeholder e then [] else [payload_bytes (data b) (capacity b) e]) @
      messages b'"
    and "\<not> is_locked (head (header b'))"
proof -
  have d: "8 dvd unat (head_of b + entry_size e)"
    using r by (auto simp: ring_def entry_ok_def unat_add_two64 dvd_mod)
  then have lck: "\<not> is_locked (head_of b + entry_size e)"
    by (rule aligned_not_locked)
  have t: "head_of b + entry_size e + word_of_nat (span es) = tail_of b"
    using r by (simp add: ring_def add.assoc)
  have c: "is_power_of_2 (data_size (header b)) = Some True" "capacity b \<le> length (data b)"
      "chain (data b) (capacity b) (head_of b + entry_size e) es" "span es \<le> capacity b"
      "ring_pos (capacity b) (tail_of b) = 0 \<or> ring_pos (capacity b) (tail_of b) + 24 \<le> capacity b"
    using r by (auto simp: ring_def)
  show r': "ring b' es"
    using c by (simp add: ring_def b'_def lck d t)
  show "messages b = (if is_placeholder e then [] else [payload_bytes (data b) (capacity b) e]) @
      messages b'"
    using ring_messages [OF r] ring_messages [OF r'] by (simp add: b'_def)
  show "\<not> is_locked (head (header b'))"
    using lck by (simp add: b'_def)
qed

lemma ring_head_payload:
  assumes r: "ring b (e # es)" and m: "\<not> is_placeholder e"
  shows "read_bytes (data b) (ring_pos (capacity b) (head_of b) + 24) (psize e) =
      Some (payload_bytes (data b) (capacity b) e)"
    and "length (payload_bytes (data b) (capacity b) e) = psize e"
    and "0 < psize e"
proof -
  have ok: "entry_ok (capacity b) (head_of b) e" and B: "capacity b \<le> length (data b)"
    using r by (simp_all add: ring_def)
  have sq: "seq e = head_of b"
    using ok by (simp add: entry_ok_def)
  show read: "read_bytes (data b) (ring_pos (capacity b) (head_of b) + 24) (psize e) =
      Some (payload_bytes (data b) (capacity b) e)"
    using payload_bytes_read [of "capacity b" e "data b"] entry_ok_inside [OF ok] B by (simp add: sq)
  show "length (payload_bytes (data b) (capacity b) e) = psize e"
    using length_read_bytes [OF read] .
  show "0 < psize e"
    using m by (simp add: is_placeholder_def word_unat_eq_iff)
qed

section \<open>Read\<close>

definition consumer_frame :: "IpcBuffer \<Rightarrow> IpcBuffer \<Rightarrow> bool" where
  "consumer_frame b b' \<longleftrightarrow> tail (header b') = tail (header b) \<and>
     data_size (header b') = data_size (header b) \<and> data b' = data b"

lemma consumer_frame_set_head [simp]:
  "consumer_frame b (set_head h b)" "consumer_frame (set_head h b) b' = consumer_frame b b'"
  by (auto simp: consumer_frame_def)

lemma consumer_frame_refl: "consumer_frame b b"
  by (simp add: consumer_frame_def)

definition own_entry :: "IpcEntry \<Rightarrow> u8 list \<Rightarrow> bool" where
  "own_entry entry buf \<longleftrightarrow> payload entry = Own buf \<and> unat (entry_len entry) \<le> length buf"

lemma read_placeholder_step:
  assumes r: "ring b (e # es)" and u: "unlocked b" and p: "is_placeholder e"
  shows "ipc_buffer_read (Suc fuel) (Some b) (Some entry) =
    ipc_buffer_read fuel (Some (set_head (head_of b + entry_size e) b)) (Some entry)"
  using u p read_entry_header_ring [OF r, of "LOCK (head (header b))"]
  by (simp add: unlocked_def claim_head_unlocked del: claim_head.simps ipc_buffer_read.simps(1))

lemma read_empty:
  assumes r: "ring b []" and u: "unlocked b"
  shows "ipc_buffer_read (Suc fuel) (Some b) (Some entry) =
    Done (result_ok IPC_EMPTY (), Some entry, Some b)"
  using u read_entry_header_ring [OF r, of "LOCK (head (header b))"]
  by (simp add: unlocked_def claim_head_unlocked del: claim_head.simps)

lemma read_too_small:
  assumes r: "ring b (e # es)" and u: "unlocked b" and p: "\<not> is_placeholder e"
    and small: "entry_len entry < payload_size e"
  shows "ipc_buffer_read (Suc fuel) (Some b) (Some entry) =
    Done (result_error_body IPC_ERR_TOO_SMALL ''destination buffer is too small''
       \<lparr>re_offset = head_of b, re_required_size = payload_size e\<rparr>, Some entry, Some b)"
  using u p small read_entry_header_ring [OF r, of "LOCK (head (header b))"]
  by (simp add: unlocked_def claim_head_unlocked Let_def del: claim_head.simps)

lemma read_message:
  assumes r: "ring b (e # es)" and u: "unlocked b" and p: "\<not> is_placeholder e"
    and own: "own_entry entry buf" and fits: "payload_size e \<le> entry_len entry"
  defines "m \<equiv> payload_bytes (data b) (capacity b) e"
  shows "ipc_buffer_read (Suc fuel) (Some b) (Some entry) =
    Done (result_ok IPC_OK (),
      Some (entry\<lparr>payload := Own (m @ drop (length m) buf), entry_offset := head_of b,
                  entry_len := payload_size e\<rparr>),
      Some (set_head (head_of b + entry_size e) b))"
proof -
  have len: "length m = psize e" and rd: "read_bytes (data b)
      (ring_pos (capacity b) (head_of b) + 24) (psize e) = Some m"
    using ring_head_payload [OF r p] by (simp_all add: m_def)
  have "write_bytes buf 0 m = Some (m @ drop (length m) buf)"
    using own fits len by (simp add: own_entry_def write_bytes_def word_le_nat_alt)
  then show ?thesis
    using u p own fits rd ring_head_pos [OF r] read_entry_header_ring [OF r, of "LOCK (head (header b))"]
    by (simp add: unlocked_def claim_head_unlocked Let_def own_entry_def sizeof_EntryHeader_def
        not_less [symmetric] set_head_data del: claim_head.simps)
qed

lemma unlocked_head: "unlocked b \<Longrightarrow> head_of b = head (header b)"
  by (simp add: unlocked_def)

lemma advance_unlocked:
  assumes "ring b (e # es)" and "unlocked b"
  shows "unlocked (set_head (head_of b + entry_size e) b)"
  using ring_advance(3) [OF assms(1)] assms(2) unfolding unlocked_def
  by (simp only: set_head_simps simp_thms)

text \<open>What a consumer finds: nothing, a placeholder to pass, or a message.\<close>

lemma ring_cases:
  assumes "ring b es"
  obtains (empty) "es = []" "messages b = []"
    | (placeholder) e es' where "es = e # es'" "is_placeholder e"
        "messages (set_head (head_of b + entry_size e) b) = messages b"
        "ring (set_head (head_of b + entry_size e) b) es'"
    | (message) e es' m where "es = e # es'" "\<not> is_placeholder e"
        "m = payload_bytes (data b) (capacity b) e" "length m = psize e"
        "messages b = m # messages (set_head (head_of b + entry_size e) b)"
        "ring (set_head (head_of b + entry_size e) b) es'"
proof (cases es)
  case Nil
  then show ?thesis
    using empty ring_messages [OF assms] by simp
next
  case (Cons e es')
  note adv = ring_advance [of b e es'] ring_head_payload [of b e es']
  show ?thesis
  proof (cases "is_placeholder e")
    case True
    then show ?thesis
      using placeholder [OF Cons] adv assms Cons by simp
  next
    case False
    then show ?thesis
      using message [OF Cons False refl] adv assms Cons by simp
  qed
qed

lemma ipc_buffer_read_correct:
  assumes "ring b es" and "unlocked b" and "own_entry entry buf" and "length es < fuel"
  shows "\<exists>r entry' b'. ipc_buffer_read fuel (Some b) (Some entry) = Done (r, Some entry', Some b') \<and>
    ring_ok b' \<and> unlocked b' \<and> consumer_frame b b' \<and>
    (case messages b of
       [] \<Rightarrow> ipc_status r = IPC_EMPTY \<and> entry' = entry \<and> messages b' = []
     | m # ms \<Rightarrow>
         if unat (entry_len entry) < length m
         then ipc_status r = IPC_ERR_TOO_SMALL \<and> entry' = entry \<and> messages b' = messages b \<and>
           map_option re_required_size (error_body r) = Some (word_of_nat (length m))
         else ipc_status r = IPC_OK \<and> payload entry' = Own (m @ drop (length m) buf) \<and>
           unat (entry_len entry') = length m \<and>
           messages b' = ms)"
  using assms
proof (induction es arbitrary: b fuel)
  case Nil
  then obtain f where "fuel = Suc f" by (cases fuel) auto
  then show ?case
    using read_empty [OF Nil(1,2), of f entry] Nil(1,2) ring_messages [OF Nil(1)]
    by (auto simp: ring_ok_iff consumer_frame_refl simp del: ipc_buffer_read.simps)
next
  case (Cons e es)
  then obtain f where f: "fuel = Suc f" "length es < f" by (cases fuel) auto
  let ?b' = "set_head (head_of b + entry_size e) b"
  note adv = ring_advance [OF Cons.prems(1)] and u' = advance_unlocked [OF Cons.prems(1,2)]
  show ?case
  proof (cases "is_placeholder e")
    case True
    have same: "messages ?b' = messages b"
      using adv(2) True by simp
    show ?thesis
      using Cons.IH [OF adv(1) u' Cons.prems(3) f(2), unfolded same consumer_frame_set_head]
        read_placeholder_step [OF Cons.prems(1,2) True, of f entry]
      by (simp only: f(1))
  next
    case False
    let ?m = "payload_bytes (data b) (capacity b) e"
    note pl = ring_head_payload [OF Cons.prems(1) False]
    have ms: "messages b = ?m # messages ?b'"
      using adv(2) False by simp
    show ?thesis
    proof (cases "entry_len entry < payload_size e")
      case True
      then show ?thesis
        using read_too_small [OF Cons.prems(1,2) False True, of f] Cons.prems(1,2) ms pl(2)
        by (auto simp: f(1) ring_ok_iff consumer_frame_refl word_less_nat_alt
            simp del: ipc_buffer_read.simps)
    next
      case fits: False
      then have "payload_size e \<le> entry_len entry" by simp
      from read_message [OF Cons.prems(1,2) False Cons.prems(3) this, of f] show ?thesis
        using fits adv(1) u' ms pl(2)
        by (auto simp: f(1) ring_ok_iff word_less_nat_alt simp del: ipc_buffer_read.simps)
    qed
  qed
qed

lemma read_head_locked:
  assumes "is_locked (head (header b))"
  shows "ipc_buffer_read (Suc fuel) (Some b) (Some entry) =
    Done (result_error_body IPC_ERR_LOCKED ''entry is locked''
      \<lparr>re_offset = head_of b, re_required_size = 0\<rparr>, Some entry, Some b)"
  using assms by (simp add: claim_head_locked del: claim_head.simps)

lemma read_not_ready:
  assumes "ring b (e # es)" and "\<not> is_locked (head (header b))" and "is_locked (tail (header b))"
  shows "ipc_buffer_read (Suc fuel) (Some b) (Some entry) =
    Done (result_error_body IPC_ERR_NOT_READY ''unreadable entry state''
      \<lparr>re_offset = head_of b, re_required_size = 0\<rparr>, Some entry, Some b)"
  using assms read_entry_header_ring [OF assms(1,2), of "LOCK (head (header b))"]
  by (simp add: claim_head_unlocked del: claim_head.simps)

section \<open>Peek\<close>

lemma peek_placeholder_step:
  assumes r: "ring b (e # es)" and u: "unlocked b" and p: "is_placeholder e"
  shows "ipc_buffer_peek (Suc fuel) (Some b) (Some entry) =
    ipc_buffer_peek fuel (Some (set_head (head_of b + entry_size e) b)) (Some entry)"
  using u p read_entry_header_ring [OF r, of "LOCK (head (header b))"]
  by (simp add: unlocked_def claim_head_unlocked del: claim_head.simps ipc_buffer_peek.simps(1))

lemma peek_empty:
  assumes r: "ring b []" and u: "unlocked b"
  shows "ipc_buffer_peek (Suc fuel) (Some b) (Some entry) =
    Done (result_ok IPC_EMPTY (), Some entry, Some b)"
  using u read_entry_header_ring [OF r, of "LOCK (head (header b))"]
  by (simp add: unlocked_def claim_head_unlocked del: claim_head.simps)

lemma peek_message:
  assumes r: "ring b (e # es)" and u: "unlocked b" and p: "\<not> is_placeholder e"
  shows "ipc_buffer_peek (Suc fuel) (Some b) (Some entry) =
    Done (result_ok IPC_OK (),
      Some (entry\<lparr>entry_offset := head_of b, entry_len := payload_size e,
                  payload := In_Buffer (ring_pos (capacity b) (head_of b) + 24)\<rparr>),
      Some b)"
  using u p ring_head_pos [OF r] read_entry_header_ring [OF r, of "LOCK (head (header b))"]
  by (simp add: unlocked_def claim_head_unlocked Let_def sizeof_EntryHeader_def del: claim_head.simps)

text \<open>The entry that a successful peek has filled in designates the first message.\<close>

definition peeked :: "IpcBuffer \<Rightarrow> IpcEntry \<Rightarrow> u8 list \<Rightarrow> bool" where
  "peeked b entry m \<longleftrightarrow>
     entry_offset entry = head_of b \<and> unat (entry_len entry) = length m \<and>
     payload entry = In_Buffer (ring_pos (capacity b) (head_of b) + 24) \<and>
     read_bytes (data b) (ring_pos (capacity b) (head_of b) + 24) (length m) = Some m \<and>
     (\<exists>e es. entries b = e # es \<and> \<not> is_placeholder e \<and> entry_len entry = payload_size e)"

lemma ipc_buffer_peek_correct:
  assumes "ring b es" and "unlocked b" and "length es < fuel"
  shows "\<exists>r entry' b'. ipc_buffer_peek fuel (Some b) (Some entry) = Done (r, Some entry', Some b') \<and>
    ring_ok b' \<and> unlocked b' \<and> consumer_frame b b' \<and> messages b' = messages b \<and>
    (case messages b of
       [] \<Rightarrow> ipc_status r = IPC_EMPTY \<and> entry' = entry
     | m # ms \<Rightarrow> ipc_status r = IPC_OK \<and> peeked b' entry' m)"
  using assms
proof (induction es arbitrary: b fuel)
  case Nil
  then obtain f where "fuel = Suc f" by (cases fuel) auto
  then show ?case
    using peek_empty [OF Nil(1,2), of f entry] Nil(1,2) ring_messages [OF Nil(1)]
    by (auto simp: ring_ok_iff consumer_frame_refl simp del: ipc_buffer_peek.simps)
next
  case (Cons e es)
  then obtain f where f: "fuel = Suc f" "length es < f" by (cases fuel) auto
  note adv = ring_advance [OF Cons.prems(1)] and u' = advance_unlocked [OF Cons.prems(1,2)]
  show ?case
  proof (cases "is_placeholder e")
    case True
    then have same: "messages (set_head (head_of b + entry_size e) b) = messages b"
      using adv(2) by simp
    show ?thesis
      using Cons.IH [OF adv(1) u' f(2), unfolded same consumer_frame_set_head]
        peek_placeholder_step [OF Cons.prems(1,2) True, of f entry]
      by (simp only: f(1))
  next
    case False
    note pl = ring_head_payload [OF Cons.prems(1) False]
    show ?thesis
      using peek_message [OF Cons.prems(1,2) False, of f entry] Cons.prems(1,2) adv(2) False pl
        ring_entries [OF Cons.prems(1)]
      by (auto simp: f(1) ring_ok_iff consumer_frame_refl peeked_def simp del: ipc_buffer_peek.simps)
  qed
qed

section \<open>Skip\<close>

lemma is_aligned_iff: "is_aligned off \<longleftrightarrow> 8 dvd unat off"
proof -
  have "is_aligned off \<longleftrightarrow> (unat off + 7) mod two64 div 8 * 8 = unat off"
    by (simp add: is_aligned_def word_unat_eq_iff unat_ALIGN_UP_8 IPC_DATA_ALIGN_def)
  also have "\<dots> \<longleftrightarrow> 8 dvd unat off"
  proof
    assume "8 dvd unat off"
    then obtain q where q: "unat off = 8 * q" ..
    then have "unat off + 7 < two64"
      using unat_lt_two64 [of off] by presburger
    then show "(unat off + 7) mod two64 div 8 * 8 = unat off"
      using q by simp
  qed (metis dvd_triv_right)
  finally show ?thesis .
qed

lemma claim_head_at_here:
  assumes "\<not> is_locked (head (header b))"
  shows "claim_head_at (Suc n) (head (header b)) b =
    Done (Inr (head (header b)), set_head (LOCK (head (header b))) b)"
  using assms by (simp add: read_head_def Let_def)

lemma skip_mismatch:
  assumes "\<not> is_locked (head (header b))" and "is_aligned off" and "off \<noteq> head (header b)"
  shows "ipc_buffer_skip (Suc fuel) (Some b) off =
    Done (result_error_body IPC_ERR_OFFSET_MISMATCH
      ''Offset mismatch: expected different offset than current head''
      \<lparr>se_offset = head (header b)\<rparr>, Some b)"
  using assms by (simp add: read_head_def Let_def)

lemma skip_empty:
  assumes r: "ring b []" and u: "unlocked b"
  shows "ipc_buffer_skip (Suc fuel) (Some b) (head_of b) = Done (result_ok IPC_EMPTY (head_of b), Some b)"
  using u read_entry_header_ring [OF r, of "LOCK (head (header b))"] r
  by (simp add: unlocked_def claim_head_at_here is_aligned_iff ring_def del: claim_head_at.simps)

lemma skip_message:
  assumes r: "ring b (e # es)" and u: "unlocked b" and p: "\<not> is_placeholder e"
  shows "ipc_buffer_skip (Suc fuel) (Some b) (head_of b) =
    Done (result_ok IPC_OK (head_of b), Some (set_head (head_of b + entry_size e) b))"
  using u p read_entry_header_ring [OF r, of "LOCK (head (header b))"] r
  by (simp add: unlocked_def claim_head_at_here is_aligned_iff ring_def del: claim_head_at.simps)

lemma skip_placeholder:
  assumes r: "ring b (e # es)" and u: "unlocked b" and p: "is_placeholder e"
  shows "ipc_buffer_skip (Suc (Suc fuel)) (Some b) (head_of b) =
    Done (result_error_body IPC_ERR_OFFSET_MISMATCH
      ''Offset mismatch: expected different offset than current head''
      \<lparr>se_offset = head_of b + entry_size e\<rparr>, Some (set_head (head_of b + entry_size e) b))"
proof -
  let ?b' = "set_head (head_of b + entry_size e) b"
  have a: "is_aligned (head_of b)" and "24 \<le> esize e"
    using r by (auto simp: ring_def is_aligned_iff entry_ok_def)
  then have ne: "head_of b \<noteq> head_of b + entry_size e"
    by auto
  have "ipc_buffer_skip (Suc (Suc fuel)) (Some b) (head_of b) =
      ipc_buffer_skip (Suc fuel) (Some ?b') (head_of b)"
    using u p a read_entry_header_ring [OF r, of "LOCK (head (header b))"]
    by (simp add: unlocked_def claim_head_at_here del: claim_head_at.simps ipc_buffer_skip.simps)
      (simp add: claim_head_at_here del: claim_head_at.simps)
  also have "\<dots> = Done (result_error_body IPC_ERR_OFFSET_MISMATCH
      ''Offset mismatch: expected different offset than current head''
      \<lparr>se_offset = head_of b + entry_size e\<rparr>, Some ?b')"
    using skip_mismatch [of ?b' "head_of b" fuel] ring_advance(3) [OF r] a ne by simp
  finally show ?thesis .
qed

section \<open>Forced skip\<close>

lemma skip_force_empty:
  assumes "ring b []"
  shows "ipc_buffer_skip_force (Some b) = Done (result_ok IPC_EMPTY (head_of b), Some b)"
  using read_entry_header_unsafe_ring [OF assms, of "head_of b" "head (header b)"]
  by (simp add: ipc_buffer_skip_force_def read_head_def)

lemma skip_force_entry:
  assumes r: "ring b (e # es)"
  shows "ipc_buffer_skip_force (Some b) =
    (if is_locked (head (header b)) then Done (result_ok IPC_ALREADY_SKIPPED (head (header b)), Some b)
     else Done (result_ok IPC_OK (head_of b), Some (set_head (head_of b + entry_size e) b)))"
proof -
  have "entry_at (data b) (ring_pos (capacity b) (head_of b)) = Some e"
    using r by (simp add: ring_def)
  note at = entry_at_loads(3) [OF this]
  have "is_locked (head (header b)) \<Longrightarrow> head (header b) \<noteq> head_of b"
    by (metis not_is_locked_UNLOCK)
  then show ?thesis
    using read_entry_header_unsafe_ring [OF r, of "head_of b" "head (header b)"] at
    by (cases "is_locked (head (header b))")
      (simp_all add: ipc_buffer_skip_force_def read_head_def compare_exchange_def Let_def)
qed

end
