(* ===== verification/Message_Queue.thy ===== *)
theory Message_Queue
  imports Prelude
begin

text \<open>
  The contract of a queue of messages, as a locale: what a sender and a receiver rely on, and
  what follows from it for every sequence of operations. The ring buffer and the channel built
  on it interpret it with the operations of the code.
\<close>

section \<open>Clients: sequences of sends and receives\<close>

datatype 'm op = Send 'm | Receive

text \<open>The accepted messages, the delivered messages and the queue after a sequence.\<close>

fun run_ops :: "('m \<Rightarrow> 'q \<Rightarrow> bool \<times> 'q) \<Rightarrow> ('q \<Rightarrow> 'm option \<times> 'q) \<Rightarrow> 'm op list \<Rightarrow> 'q \<Rightarrow>
    'm list \<times> 'm list \<times> 'q" where
  "run_ops send recv [] q = ([], [], q)"
| "run_ops send recv (Send m # ops) q =
     (let (ok, q') = send m q; (acc, del, q'') = run_ops send recv ops q'
      in (if ok then m # acc else acc, del, q''))"
| "run_ops send recv (Receive # ops) q =
     (let (x, q') = recv q; (acc, del, q'') = run_ops send recv ops q'
      in (acc, (case x of None \<Rightarrow> del | Some m \<Rightarrow> m # del), q''))"

fun sends :: "'m op list \<Rightarrow> 'm list" where
  "sends [] = []"
| "sends (Send m # ops) = m # sends ops"
| "sends (Receive # ops) = sends ops"

section \<open>The contract\<close>

locale message_queue =
  fixes inv :: "'q \<Rightarrow> bool"
    and valid :: "'m \<Rightarrow> bool"
    and contents :: "'q \<Rightarrow> 'm list"
    and send :: "'m \<Rightarrow> 'q \<Rightarrow> bool \<times> 'q"
    and recv :: "'q \<Rightarrow> 'm option \<times> 'q"
  assumes send_inv: "inv q \<Longrightarrow> valid m \<Longrightarrow> inv (snd (send m q))"
    and send_contents: "inv q \<Longrightarrow> valid m \<Longrightarrow>
      contents (snd (send m q)) = contents q @ (if fst (send m q) then [m] else [])"
    and recv_inv: "inv q \<Longrightarrow> inv (snd (recv q))"
    and recv_contents: "inv q \<Longrightarrow>
      contents q = (case fst (recv q) of None \<Rightarrow> [] | Some m \<Rightarrow> [m]) @ contents (snd (recv q))"
    and recv_None: "inv q \<Longrightarrow> fst (recv q) = None \<Longrightarrow> contents q = []"
begin

lemma send_recv_empty:
  assumes "inv q" and "valid m" and "contents q = []" and "fst (send m q)"
  shows "fst (recv (snd (send m q))) = Some m"
proof -
  let ?q = "snd (send m q)"
  have c: "contents ?q = [m]" and i: "inv ?q"
    using assms send_contents send_inv by simp_all
  have "fst (recv ?q) \<noteq> None"
    using recv_None [OF i] c by auto
  then show ?thesis
    using recv_contents [OF i] c by auto
qed

theorem run_fifo:
  assumes "inv q" and "\<forall>m \<in> set (sends ops). valid m"
    and "run_ops send recv ops q = (acc, del, q')"
  shows "inv q'" and "contents q @ acc = del @ contents q'"
proof -
  have "inv q' \<and> contents q @ acc = del @ contents q'"
    using assms
  proof (induction ops arbitrary: q acc del)
    case Nil
    then show ?case by simp
  next
    case (Cons op ops)
    show ?case
    proof (cases op)
      case (Send m)
      let ?q = "snd (send m q)"
      obtain acc' where run: "run_ops send recv ops ?q = (acc', del, q')"
        and acc: "acc = (if fst (send m q) then m # acc' else acc')"
        using Cons.prems(3) Send by (auto simp: Let_def split: prod.splits)
      have "inv ?q" and "contents ?q = contents q @ (if fst (send m q) then [m] else [])"
        using Cons.prems(1,2) Send send_inv send_contents by simp_all
      then show ?thesis
        using Cons.IH [OF _ _ run] Cons.prems(2) Send acc by (cases "fst (send m q)") simp_all
    next
      case Receive
      let ?q = "snd (recv q)"
      obtain del' where run: "run_ops send recv ops ?q = (acc, del', q')"
        and del: "del = (case fst (recv q) of None \<Rightarrow> [] | Some m \<Rightarrow> [m]) @ del'"
        using Cons.prems(3) Receive by (auto simp: Let_def split: prod.splits option.splits)
      show ?thesis
        using Cons.IH [OF recv_inv [OF Cons.prems(1)] _ run] Cons.prems(2) Receive del
          recv_contents [OF Cons.prems(1)] by (metis append.assoc sends.simps(3))
    qed
  qed
  then show "inv q'" and "contents q @ acc = del @ contents q'" by simp_all
qed

text \<open>Nothing is lost, duplicated or reordered: what is delivered is a prefix of what was there and sent.\<close>

lemma run_prefix:
  assumes "inv q" and "\<forall>m \<in> set (sends ops). valid m"
    and "run_ops send recv ops q = (acc, del, q')"
  shows "del = take (length del) (contents q @ acc)"
  using run_fifo(2) [OF assms] by simp

text \<open>As many receives as there are messages deliver all of them and leave an empty queue.\<close>

lemma drain:
  assumes "inv q"
  shows "\<exists>q'. run_ops send recv (replicate (length (contents q)) Receive) q = ([], contents q, q') \<and>
    inv q' \<and> contents q' = []"
  using assms
proof (induction "length (contents q)" arbitrary: q)
  case 0
  then show ?case by simp
next
  case (Suc n)
  let ?q = "snd (recv q)"
  obtain m where m: "fst (recv q) = Some m"
    using Suc.hyps(2) recv_None [OF Suc.prems] by (cases "fst (recv q)") auto
  then have c: "contents q = m # contents ?q"
    using recv_contents [OF Suc.prems] by simp
  then have n: "n = length (contents ?q)"
    using Suc.hyps(2) by simp
  from Suc.hyps(1) [OF n recv_inv [OF Suc.prems]] show ?case
    using Suc.hyps(2) c m n by (auto simp: Let_def split: prod.splits)
qed

end

text \<open>A queue whose first message can be read without consuming it.\<close>

locale peekable_queue = message_queue +
  fixes peek :: "'a \<Rightarrow> 'b option \<times> 'a"
  assumes peek_inv: "inv q \<Longrightarrow> inv (snd (peek q))"
    and peek_keeps: "inv q \<Longrightarrow> contents (snd (peek q)) = contents q"
    and peek_first: "inv q \<Longrightarrow>
      fst (peek q) = (case contents q of [] \<Rightarrow> None | m # _ \<Rightarrow> Some m)"
begin

lemma peek_then_recv:
  assumes "inv q"
  shows "fst (recv (snd (peek q))) = fst (peek q)"
proof -
  let ?q = "snd (peek q)"
  have i: "inv ?q" and c: "contents ?q = contents q"
    using assms by (simp_all add: peek_inv peek_keeps)
  show ?thesis
    using peek_first [OF assms] recv_contents [OF i] recv_None [OF i] c
    by (auto split: option.splits list.splits)
qed

end

end
