(* ===== verification/Buffer_Queue.thy ===== *)
theory Buffer_Queue
  imports Buffer_Write Buffer_Read Message_Queue
begin

text \<open>
  The ring buffer provides the contract of a peekable message queue. A send is one call of
  \<open>ipc_buffer_write\<close>, a receive one call of \<open>ipc_buffer_read\<close> with memory as large as the data
  area, a peek one call of \<open>ipc_buffer_peek\<close> followed by a read through the returned pointer.
\<close>

section \<open>The operations as a client uses them\<close>

definition valid_bytes :: "u8 list \<Rightarrow> bool" where
  "valid_bytes m \<longleftrightarrow> m \<noteq> [] \<and> length m + 31 < two64"

definition buffer_inv :: "IpcBuffer \<Rightarrow> bool" where
  "buffer_inv b \<longleftrightarrow> ring_ok b \<and> unlocked b"

definition buffer_send :: "u8 list \<Rightarrow> IpcBuffer \<Rightarrow> bool \<times> IpcBuffer" where
  "buffer_send m b =
     (case ipc_buffer_write 2 (Some b) (Some m) (word_of_nat (length m)) of
        Done (r, Some b') \<Rightarrow> (ipc_status r = IPC_OK, b')
      | _ \<Rightarrow> (False, b))"

definition read_fuel :: "IpcBuffer \<Rightarrow> nat" where
  "read_fuel b = Suc (length (data b))"

definition buffer_recv :: "IpcBuffer \<Rightarrow> u8 list option \<times> IpcBuffer" where
  "buffer_recv b =
     (case ipc_buffer_read (read_fuel b) (Some b)
             (Some \<lparr>entry_offset = 0, payload = Own (replicate (capacity b) 0),
                    entry_len = data_size (header b)\<rparr>) of
        Done (r, Some entry, Some b') \<Rightarrow>
          (if ipc_status r = IPC_OK
           then (case payload entry of
                   Own bytes \<Rightarrow> Some (take (unat (entry_len entry)) bytes)
                 | _ \<Rightarrow> None)
           else None, b')
      | _ \<Rightarrow> (None, b))"

definition buffer_peek :: "IpcBuffer \<Rightarrow> u8 list option \<times> IpcBuffer" where
  "buffer_peek b =
     (case ipc_buffer_peek (read_fuel b) (Some b)
             (Some \<lparr>entry_offset = 0, payload = Null, entry_len = 0\<rparr>) of
        Done (r, Some entry, Some b') \<Rightarrow>
          (if ipc_status r = IPC_OK
           then (case payload entry of
                   In_Buffer p \<Rightarrow> read_bytes (data b') p (unat (entry_len entry))
                 | _ \<Rightarrow> None)
           else None, b')
      | _ \<Rightarrow> (None, b))"

section \<open>The laws of the contract\<close>

lemma valid_bytes_message: "valid_bytes m \<Longrightarrow> valid_message m (word_of_nat (length m))"
  by (auto simp: valid_bytes_def valid_message_def word_unat_eq_iff unat_of_nat_two64)

lemma valid_bytes_length: "valid_bytes m \<Longrightarrow> unat (word_of_nat (length m) :: u64) = length m"
  by (simp add: valid_bytes_def unat_of_nat_two64)

lemma ring_fuel: "ring b es \<Longrightarrow> length es < read_fuel b"
  using chain_span_ge [of "data b" "capacity b" "head_of b" es]
  by (simp add: ring_def read_fuel_def)

lemma same_frame_unlocked:
  "same_frame b b' \<Longrightarrow> unlocked b \<Longrightarrow> \<not> is_locked (tail (header b')) \<Longrightarrow> unlocked b'"
  by (simp add: same_frame_def unlocked_def)

lemma buffer_send_correct:
  assumes "buffer_inv b" and "valid_bytes m"
  shows "buffer_inv (snd (buffer_send m b))"
    and "fst (buffer_send m b) \<longleftrightarrow> write_fits b (word_of_nat (length m))"
    and "messages (snd (buffer_send m b)) =
      messages b @ (if fst (buffer_send m b) then [m] else [])"
proof -
  obtain es where es: "ring b es" and u: "unlocked b"
    using assms(1) by (auto simp: buffer_inv_def ring_ok_iff)
  then have ut: "\<not> is_locked (tail (header b))"
    by (simp add: unlocked_def)
  from ipc_buffer_write_correct [OF es ut valid_bytes_message [OF assms(2)], of 2]
  obtain r b' where w: "ipc_buffer_write 2 (Some b) (Some m) (word_of_nat (length m)) = Done (r, Some b')"
    and ok: "ring_ok b'" and fr: "same_frame b b'" and ut': "\<not> is_locked (tail (header b'))"
    and res: "if write_fits b (word_of_nat (length m))
     then ipc_status r = IPC_OK \<and> messages b' = messages b @ [take (unat (word_of_nat (length m) :: u64)) m]
     else messages b' = messages b \<and>
       ipc_status r = (if capacity b < unat (full_entry_size (word_of_nat (length m)))
         then IPC_ERR_ENTRY_TOO_LARGE else IPC_ERR_NO_SPACE_CONTIGUOUS)"
    by (auto simp: ring_ok_iff)
  have s: "buffer_send m b = (ipc_status r = IPC_OK, b')"
    by (simp add: buffer_send_def w)
  show "buffer_inv (snd (buffer_send m b))"
    using ok same_frame_unlocked [OF fr u ut'] by (simp add: s buffer_inv_def)
  show "fst (buffer_send m b) \<longleftrightarrow> write_fits b (word_of_nat (length m))"
    using res by (simp add: s split: if_splits)
  show "messages (snd (buffer_send m b)) = messages b @ (if fst (buffer_send m b) then [m] else [])"
    using res by (simp add: s valid_bytes_length [OF assms(2)] split: if_splits)
qed

lemma messages_fit:
  assumes "ring b es" and "messages b = m # ms"
  shows "length m \<le> capacity b"
proof -
  have bound: "length x \<le> capacity b" if "x \<in> set (payloads (data b) (capacity b) es)"
      and "chain (data b) (capacity b) off es" for x off
    using that by (induction es arbitrary: off)
      (auto simp: payload_bytes_def dest!: entry_ok_inside split: if_splits)
  show ?thesis
    using bound [of m "head_of b"] assms ring_messages [OF assms(1)] by (simp add: ring_def)
qed

lemma buffer_recv_correct:
  assumes "buffer_inv b"
  shows "buffer_inv (snd (buffer_recv b))"
    and "fst (buffer_recv b) = (case messages b of [] \<Rightarrow> None | m # _ \<Rightarrow> Some m)"
    and "messages (snd (buffer_recv b)) = tl (messages b)"
proof -
  obtain es where es: "ring b es" and u: "unlocked b"
    using assms by (auto simp: buffer_inv_def ring_ok_iff)
  let ?buf = "replicate (capacity b) (0 :: u8)"
  let ?entry = "\<lparr>entry_offset = 0, payload = Own ?buf, entry_len = data_size (header b)\<rparr>"
  have own: "own_entry ?entry ?buf"
    by (simp add: own_entry_def capacity_def)
  from ipc_buffer_read_correct [OF es u own ring_fuel [OF es]] obtain r e' b' where
    w: "ipc_buffer_read (read_fuel b) (Some b) (Some ?entry) = Done (r, Some e', Some b')"
    and inv: "ring_ok b'" "unlocked b'"
    and res: "case messages b of
       [] \<Rightarrow> ipc_status r = IPC_EMPTY \<and> e' = ?entry \<and> messages b' = []
     | m # ms \<Rightarrow>
         if unat (entry_len ?entry) < length m
         then ipc_status r = IPC_ERR_TOO_SMALL \<and> e' = ?entry \<and> messages b' = messages b \<and>
           map_option re_required_size (error_body r) = Some (word_of_nat (length m))
         else ipc_status r = IPC_OK \<and> payload e' = Own (m @ drop (length m) ?buf) \<and>
           unat (entry_len e') = length m \<and> messages b' = ms"
    by blast
  have s: "snd (buffer_recv b) = b'"
    by (simp add: buffer_recv_def w)
  show "buffer_inv (snd (buffer_recv b))"
    using inv by (simp add: s buffer_inv_def)
  have "\<not> unat (entry_len ?entry) < length m" if "messages b = m # ms" for m ms
    using messages_fit [OF es that] by (simp add: capacity_def)
  then show "fst (buffer_recv b) = (case messages b of [] \<Rightarrow> None | m # _ \<Rightarrow> Some m)"
    and "messages (snd (buffer_recv b)) = tl (messages b)"
    using res by (auto simp: buffer_recv_def w split: list.splits)
qed

lemma buffer_peek_correct:
  assumes "buffer_inv b"
  shows "buffer_inv (snd (buffer_peek b))"
    and "fst (buffer_peek b) = (case messages b of [] \<Rightarrow> None | m # _ \<Rightarrow> Some m)"
    and "messages (snd (buffer_peek b)) = messages b"
proof -
  obtain es where es: "ring b es" and u: "unlocked b"
    using assms by (auto simp: buffer_inv_def ring_ok_iff)
  let ?entry = "\<lparr>entry_offset = 0, payload = Null, entry_len = 0\<rparr>"
  from ipc_buffer_peek_correct [OF es u ring_fuel [OF es]] obtain r e' b' where
    w: "ipc_buffer_peek (read_fuel b) (Some b) (Some ?entry) = Done (r, Some e', Some b')"
    and inv: "ring_ok b'" "unlocked b'" and ms: "messages b' = messages b"
    and res: "case messages b of
       [] \<Rightarrow> ipc_status r = IPC_EMPTY \<and> e' = ?entry
     | m # ms \<Rightarrow> ipc_status r = IPC_OK \<and> peeked b' e' m"
    by blast
  show "buffer_inv (snd (buffer_peek b))" and "messages (snd (buffer_peek b)) = messages b"
    using inv ms by (simp_all add: buffer_peek_def w buffer_inv_def)
  show "fst (buffer_peek b) = (case messages b of [] \<Rightarrow> None | m # _ \<Rightarrow> Some m)"
    using res by (auto simp: buffer_peek_def w peeked_def split: list.splits)
qed

interpretation ring_queue:
  peekable_queue buffer_inv valid_bytes messages buffer_send buffer_recv buffer_peek
proof unfold_locales
  fix q :: IpcBuffer and m :: "u8 list"
  assume inv: "buffer_inv q"
  show "buffer_inv (snd (buffer_recv q))" and "buffer_inv (snd (buffer_peek q))"
    and "messages (snd (buffer_peek q)) = messages q"
    and "fst (buffer_peek q) = (case messages q of [] \<Rightarrow> None | m # _ \<Rightarrow> Some m)"
    using inv buffer_recv_correct(1) buffer_peek_correct by simp_all
  show "messages q = (case fst (buffer_recv q) of None \<Rightarrow> [] | Some m \<Rightarrow> [m]) @
      messages (snd (buffer_recv q))"
    using buffer_recv_correct(2,3) [OF inv] by (simp split: list.splits)
  show "messages q = []" if "fst (buffer_recv q) = None"
    using buffer_recv_correct(2) [OF inv] that by (simp split: list.splits)
  assume "valid_bytes m"
  then show "buffer_inv (snd (buffer_send m q))"
    and "messages (snd (buffer_send m q)) = messages q @ (if fst (buffer_send m q) then [m] else [])"
    using inv buffer_send_correct by simp_all
qed

end
