(* ===== verification/Buffer_Spec.thy ===== *)
theory Buffer_Spec
  imports Buffer_Queue
begin

text \<open>
  The properties of the ring buffer's operations, over the whole range of their inputs: what
  each operation does to the queue of messages that the buffer holds, its result on every
  branch, and what follows for sequences of operations. The witnesses run the operations on a
  buffer of 128 bytes.
\<close>

section \<open>A buffer to run the operations on\<close>

definition empty_buffer :: "u64 \<Rightarrow> IpcBuffer" where
  "empty_buffer n = \<lparr>header = \<lparr>head = 0, data_size = n, tail = 0\<rparr>, data = replicate (unat n) 0\<rparr>"

lemma empty_buffer_simps [simp]:
  "capacity (empty_buffer n) = unat n"
  "head (header (empty_buffer n)) = 0"
  "tail (header (empty_buffer n)) = 0"
  "data_size (header (empty_buffer n)) = n"
  "length (data (empty_buffer n)) = unat n"
  by (simp_all add: capacity_def empty_buffer_def)

lemma UNLOCK_0 [simp]: "UNLOCK 0 = 0"
  by (simp add: UNLOCK_def)

lemma empty_buffer_ring:
  assumes "unat n = 2 ^ k"
  shows "ring (empty_buffer n) []"
proof -
  have "k < 64"
    using unat_lt_two64 [of n] assms power_less_imp_less_exp [of 2 k 64] by simp
  then have "is_power_of_2 n = Some True"
    using is_power_of_2_iff [of n] assms pow2_le_2p63 by auto
  then show ?thesis
    by (simp add: ring_def empty_buffer_def capacity_def UNLOCK_def ring_pos_def)
qed

lemma empty_buffer_inv:
  assumes "unat n = 2 ^ k"
  shows "buffer_inv (empty_buffer n)" and "entries (empty_buffer n) = []"
    and "messages (empty_buffer n) = []"
  using empty_buffer_ring [OF assms] ring_entries ring_messages
  by (auto simp: buffer_inv_def ring_ok_iff unlocked_def empty_buffer_def is_locked_iff)

lemmas empty_128 = empty_buffer_inv [of 128 7, simplified]

lemma buffer_invE:
  assumes "buffer_inv b"
  obtains es where "ring b es" and "unlocked b" and "entries b = es"
    and "\<not> is_locked (head (header b))" and "\<not> is_locked (tail (header b))"
  using assms ring_entries by (auto simp: buffer_inv_def ring_ok_iff unlocked_def)

lemma ring_length_le: "ring b es \<Longrightarrow> length es \<le> capacity b"
  using chain_span_ge [of "data b" "capacity b" "head_of b" es] by (simp add: ring_def)

text \<open>A buffer that holds one message, and messages that fit an empty buffer of 128 bytes.\<close>

lemma fits_128: "0 < n \<Longrightarrow> n \<le> 80 \<Longrightarrow> write_fits (empty_buffer 128) (word_of_nat n)"
  using empty_128
  by (simp add: write_fits_def full_entry_size_def sizeof_EntryHeader_def IPC_DATA_ALIGN_def
      unat_ALIGN_UP_8 space_to_wrap_def ring_pos_def unat_add_two64 unat_of_nat_two64)

definition one_message :: IpcBuffer where
  "one_message = snd (buffer_send [1, 2, 3] (empty_buffer 128))"

lemma one_message_facts:
  shows "buffer_inv one_message" and "messages one_message = [[1, 2, 3]]"
proof -
  have v: "valid_bytes [1, 2, 3]"
    by (simp add: valid_bytes_def)
  show "buffer_inv one_message" and "messages one_message = [[1, 2, 3]]"
    using buffer_send_correct [OF empty_128(1) v] empty_128(3) fits_128 [of 3]
    by (simp_all add: one_message_def)
qed

lemma buffer_send_write:
  assumes "buffer_inv b" and "valid_bytes m"
  shows "\<exists>r. ipc_buffer_write 2 (Some b) (Some m) (word_of_nat (length m)) =
    Done (r, Some (snd (buffer_send m b)))"
proof -
  obtain es where es: "ring b es" "\<not> is_locked (tail (header b))"
    using assms(1) by (rule buffer_invE)
  from ipc_buffer_write_correct [OF this valid_bytes_message [OF assms(2)], of 2] show ?thesis
    by (auto simp: buffer_send_def simp del: ipc_buffer_write.simps)
qed

section \<open>Writing\<close>

text \<open>
  C9. A call of \<open>ipc_buffer_write\<close> that runs alone always returns. It keeps the buffer
  well-formed and \<open>head\<close> where it was. Exactly when the entry fits (\<open>write_fits\<close>) the status is
  \<open>IPC_OK\<close> and the first \<open>size\<close> bytes of the data are appended to the queue of messages;
  otherwise the queue is unchanged, and the status says whether the entry exceeds the buffer.
  Two levels of calls are enough: after a placeholder the second one starts at position 0.
\<close>

theorem write_appends_message:
  assumes "buffer_inv b" and "valid_message bytes n" and "2 \<le> fuel"
  shows "\<exists>r b'. ipc_buffer_write fuel (Some b) (Some bytes) n = Done (r, Some b') \<and>
    buffer_inv b' \<and> same_frame b b' \<and>
    (if write_fits b n
     then ipc_status r = IPC_OK \<and> messages b' = messages b @ [take (unat n) bytes]
     else messages b' = messages b \<and>
       ipc_status r = (if capacity b < unat (full_entry_size n) then IPC_ERR_ENTRY_TOO_LARGE
                       else IPC_ERR_NO_SPACE_CONTIGUOUS))"
proof -
  from assms(1) obtain es where "ring b es" and "unlocked b" and "\<not> is_locked (tail (header b))"
    by (rule buffer_invE)
  then show ?thesis
    using ipc_buffer_write_correct [of b es bytes n fuel] assms(2,3)
    by (fastforce simp: buffer_inv_def ring_ok_iff intro: same_frame_unlocked)
qed

theorem write_appends_message_witness:
  "\<exists>r b'. ipc_buffer_write 2 (Some one_message) (Some [9, 8, 7, 6]) 4 = Done (r, Some b') \<and>
    (ipc_status r = IPC_OK \<longrightarrow> messages b' = [[1, 2, 3], [9, 8, 7, 6]])"
  using write_appends_message [of one_message "[9, 8, 7, 6]" 4 2] one_message_facts
  by (auto simp: valid_message_def simp del: ipc_buffer_write.simps split: if_splits)

lemma write_returns:
  assumes "buffer_inv b" and "valid_message bytes n"
  obtains r b' where "ipc_buffer_write 2 (Some b) (Some bytes) n = Done (r, Some b')"
proof -
  obtain es where es: "ring b es" "\<not> is_locked (tail (header b))"
    using assms(1) by (rule buffer_invE)
  from ipc_buffer_write_correct [OF this assms(2), of 2] show ?thesis
    using that by auto
qed

text \<open>The entries before a write are the first entries after it, with the same payloads.\<close>

lemma write_prefix:
  assumes "buffer_inv b" and "valid_message bytes n"
    and "ipc_buffer_write 2 (Some b) (Some bytes) n = Done (r, Some b')"
  obtains fs where "ring b' (entries b @ fs)" and "payloads (data b') (capacity b') (entries b) = messages b"
    and "same_frame b b'" and "buffer_inv b'"
proof -
  obtain es where es: "ring b es" "\<not> is_locked (tail (header b))" "entries b = es"
    and u: "unlocked b"
    using assms(1) by (rule buffer_invE)
  from ipc_buffer_write_correct [OF es(1,2) assms(2), of 2] obtain fs m where
    fs: "ring b' (es @ fs)" and m: "messages b' = messages b @ m"
    and fr: "same_frame b b'" and u': "\<not> is_locked (tail (header b'))"
    using assms(3) by (fastforce simp del: ipc_buffer_write.simps split: if_splits)
  have "payloads (data b') (capacity b') es @ payloads (data b') (capacity b') fs =
      payloads (data b) (capacity b) es @ m"
    using m ring_messages [OF fs] ring_messages [OF es(1)] by simp
  moreover have "length (payloads (data b') (capacity b') es) = length (payloads (data b) (capacity b) es)"
    by (simp add: payloads_def)
  ultimately show ?thesis
    using that [of fs] fs ring_messages [OF es(1)] es(3) fr same_frame_unlocked [OF fr u u']
    by (auto simp: buffer_inv_def ring_ok_iff)
qed

text \<open>
  C12. No byte of an unread entry is overwritten: after any write, accepted or not, with or
  without a placeholder, the entries between \<open>head\<close> and the old \<open>tail\<close> are the same headers in
  the same order, at the same positions, with the same payload bytes.
\<close>

theorem write_keeps_unread_entries:
  assumes "buffer_inv b" and "valid_message bytes n"
    and "ipc_buffer_write 2 (Some b) (Some bytes) n = Done (r, Some b')"
  shows "take (length (entries b)) (entries b') = entries b \<and>
    payloads (data b') (capacity b') (entries b) = payloads (data b) (capacity b) (entries b)"
proof -
  obtain fs where "ring b' (entries b @ fs)"
    and "payloads (data b') (capacity b') (entries b) = messages b"
    using assms by (rule write_prefix)
  then show ?thesis
    using ring_entries [of b'] by (simp add: messages_def)
qed

theorem write_keeps_unread_entries_witness:
  "\<exists>r b'. ipc_buffer_write 2 (Some one_message) (Some [9]) 1 = Done (r, Some b') \<and>
    payloads (data b') (capacity b') (entries one_message) = [[1, 2, 3]]"
proof -
  have v: "valid_message [9] 1"
    by (simp add: valid_message_def)
  obtain r b' where w: "ipc_buffer_write 2 (Some one_message) (Some [9]) 1 = Done (r, Some b')"
    by (rule write_returns [OF one_message_facts(1) v])
  have "payloads (data b') (capacity b') (entries one_message) = messages one_message"
    using write_keeps_unread_entries [OF one_message_facts(1) v w]
    by (simp add: messages_def)
  then show ?thesis
    using w one_message_facts(2) by (auto simp del: ipc_buffer_write.simps)
qed

text \<open>
  C17. An empty buffer takes every message whose entry is at most half of the data area less one
  header, wherever \<open>head\<close> and \<open>tail\<close> stand: a writer that is refused such a message can wait for
  the readers.
\<close>

theorem empty_buffer_accepts:
  assumes "buffer_inv b" and "entries b = []" and "valid_message bytes n"
    and "2 * (unat (full_entry_size n) + 24) \<le> capacity b"
  shows "\<exists>r b'. ipc_buffer_write 2 (Some b) (Some bytes) n = Done (r, Some b') \<and>
    ipc_status r = IPC_OK \<and> messages b' = [take (unat n) bytes]"
proof -
  obtain es where es: "ring b es" "\<not> is_locked (tail (header b))" "entries b = es"
    using assms(1) by (rule buffer_invE)
  have "messages b = []" and "write_fits b n"
    using assms(2,4) by (auto simp: messages_def write_fits_def Let_def)
  then show ?thesis
    using ipc_buffer_write_correct [OF es(1,2) assms(3), of 2] by fastforce
qed

theorem empty_buffer_accepts_witness:
  "\<exists>r b'. ipc_buffer_write 2 (Some (empty_buffer 128)) (Some [1, 2, 3]) 3 = Done (r, Some b') \<and>
    ipc_status r = IPC_OK \<and> messages b' = [[1, 2, 3]]"
  using empty_buffer_accepts [OF empty_128(1,2), of "[1, 2, 3]" 3]
  by (simp add: valid_message_def full_entry_size_def sizeof_EntryHeader_def IPC_DATA_ALIGN_def
      unat_ALIGN_UP_8 del: ipc_buffer_write.simps)

text \<open>
  A message whose entry with one more header exceeds the data area, but which passes the
  check against the size of the buffer, is never accepted, however empty the buffer is: the
  status is \<open>IPC_ERR_NO_SPACE_CONTIGUOUS\<close> for every state.
\<close>

theorem nearly_full_size_never_fits:
  assumes "buffer_inv b" and "valid_message bytes n"
    and "unat (full_entry_size n) \<le> capacity b" and "capacity b < unat (full_entry_size n) + 24"
  shows "\<exists>r b'. ipc_buffer_write 2 (Some b) (Some bytes) n = Done (r, Some b') \<and>
    ipc_status r = IPC_ERR_NO_SPACE_CONTIGUOUS \<and> messages b' = messages b"
proof -
  obtain es where es: "ring b es" "\<not> is_locked (tail (header b))" "entries b = es"
    using assms(1) by (rule buffer_invE)
  have "\<not> write_fits b n" and "\<not> capacity b < unat (full_entry_size n)"
    using assms(3,4) by (auto simp: write_fits_def Let_def space_to_wrap_def)
  then show ?thesis
    using ipc_buffer_write_correct [OF es(1,2) assms(2), of 2] by fastforce
qed

theorem nearly_full_size_never_fits_witness:
  "\<exists>r b'. ipc_buffer_write 2 (Some (empty_buffer 128)) (Some (replicate 96 7)) 96 = Done (r, Some b') \<and>
    ipc_status r = IPC_ERR_NO_SPACE_CONTIGUOUS \<and> messages b' = []"
  using nearly_full_size_never_fits [OF empty_128(1), of "replicate 96 7" 96] empty_128(3)
  by (simp add: valid_message_def full_entry_size_def sizeof_EntryHeader_def IPC_DATA_ALIGN_def
      unat_ALIGN_UP_8 del: ipc_buffer_write.simps)

lemma one_message_frame: "same_frame (empty_buffer 128) one_message"
proof -
  have v: "valid_bytes [1, 2, 3]"
    by (simp add: valid_bytes_def)
  obtain r where "ipc_buffer_write 2 (Some (empty_buffer 128)) (Some [1, 2, 3]) (word_of_nat (length ([1, 2, 3] :: u8 list)))
      = Done (r, Some one_message)"
    using buffer_send_write [OF empty_128(1) v] unfolding one_message_def by blast
  with empty_128(1) valid_bytes_message [OF v] show ?thesis
    by (rule write_prefix)
qed

lemma one_message_length: "length (data one_message) = 128"
  using one_message_frame by (simp add: same_frame_def)

lemma one_message_capacity: "capacity one_message = 128"
  using same_frame_capacity [OF one_message_frame] by simp

lemma one_message_entries: "length (entries one_message) < 200"
proof -
  obtain es where "ring one_message es" and "entries one_message = es"
    using one_message_facts(1) by (rule buffer_invE)
  then show ?thesis
    using ring_fuel [of one_message es] one_message_length by (simp add: read_fuel_def)
qed

section \<open>Reading\<close>

text \<open>
  C10. A call of \<open>ipc_buffer_read\<close> that runs alone passes the placeholders and delivers the oldest
  message: its bytes at the start of the destination, its size, and \<open>head\<close> moved behind it. On
  an empty queue the status is \<open>IPC_EMPTY\<close>; where the destination is too small the message
  stays and the error names the size needed. One level of calls per placeholder is enough fuel.
\<close>

theorem read_delivers_oldest:
  assumes "buffer_inv b" and "own_entry entry buf" and "length (entries b) < fuel"
  shows "\<exists>r entry' b'. ipc_buffer_read fuel (Some b) (Some entry) = Done (r, Some entry', Some b') \<and>
    buffer_inv b' \<and> consumer_frame b b' \<and>
    (case messages b of
       [] \<Rightarrow> ipc_status r = IPC_EMPTY \<and> entry' = entry \<and> messages b' = []
     | m # ms \<Rightarrow>
         if unat (entry_len entry) < length m
         then ipc_status r = IPC_ERR_TOO_SMALL \<and> entry' = entry \<and> messages b' = messages b \<and>
           map_option re_required_size (error_body r) = Some (word_of_nat (length m))
         else ipc_status r = IPC_OK \<and> payload entry' = Own (m @ drop (length m) buf) \<and>
           unat (entry_len entry') = length m \<and> messages b' = ms)"
proof -
  from assms(1) obtain es where "ring b es" and "unlocked b" and "entries b = es"
    by (rule buffer_invE)
  then show ?thesis
    using ipc_buffer_read_correct [of b es entry buf fuel] assms(2,3)
    by (simp add: buffer_inv_def conj_assoc del: ipc_buffer_read.simps)
qed

theorem read_delivers_oldest_witness:
  "\<exists>r entry' b'. ipc_buffer_read 200 (Some one_message)
      (Some \<lparr>entry_offset = 0, payload = Own [0, 0, 0, 0], entry_len = 4\<rparr>) =
      Done (r, Some entry', Some b') \<and>
    ipc_status r = IPC_OK \<and> payload entry' = Own [1, 2, 3, 0] \<and> entry_len entry' = 3 \<and>
    messages b' = []"
  using read_delivers_oldest [OF one_message_facts(1), of
      "\<lparr>entry_offset = 0, payload = Own [0, 0, 0, 0], entry_len = 4\<rparr>" "[0, 0, 0, 0]" 200]
    one_message_entries
  by (auto simp: one_message_facts(2) own_entry_def word_unat_eq_iff simp del: ipc_buffer_read.simps)

section \<open>Peeking\<close>

text \<open>
  C14. \<open>ipc_buffer_peek\<close> consumes nothing: the queue of messages is unchanged (only placeholders
  at \<open>head\<close> are passed), and on \<open>IPC_OK\<close> the entry it fills in has the offset of \<open>head\<close>, the
  size of the oldest message, and a pointer into the data area at which its bytes are read.
\<close>

theorem peek_designates_oldest:
  assumes "buffer_inv b" and "length (entries b) < fuel"
  shows "\<exists>r entry' b'. ipc_buffer_peek fuel (Some b) (Some entry) = Done (r, Some entry', Some b') \<and>
    buffer_inv b' \<and> consumer_frame b b' \<and> messages b' = messages b \<and>
    (case messages b of
       [] \<Rightarrow> ipc_status r = IPC_EMPTY \<and> entry' = entry
     | m # ms \<Rightarrow> ipc_status r = IPC_OK \<and> peeked b' entry' m)"
proof -
  from assms(1) obtain es where "ring b es" and "unlocked b" and "entries b = es"
    by (rule buffer_invE)
  then show ?thesis
    using ipc_buffer_peek_correct [of b es fuel entry] assms(2)
    by (simp add: buffer_inv_def conj_assoc del: ipc_buffer_peek.simps)
qed

theorem peek_designates_oldest_witness:
  "\<exists>r entry' b'. ipc_buffer_peek 200 (Some one_message)
      (Some \<lparr>entry_offset = 0, payload = Null, entry_len = 0\<rparr>) = Done (r, Some entry', Some b') \<and>
    ipc_status r = IPC_OK \<and> messages b' = [[1, 2, 3]] \<and> peeked b' entry' [1, 2, 3]"
  using peek_designates_oldest [OF one_message_facts(1) one_message_entries,
      of "\<lparr>entry_offset = 0, payload = Null, entry_len = 0\<rparr>"]
  by (auto simp: one_message_facts(2) simp del: ipc_buffer_peek.simps)

text \<open>What a peek has designated survives a write.\<close>

lemma peeked_write:
  assumes inv: "buffer_inv b" and pk: "peeked b entry m" and msg: "valid_message bytes n"
    and w: "ipc_buffer_write 2 (Some b) (Some bytes) n = Done (r, Some b')"
  shows "peeked b' entry m" and "buffer_inv b'"
proof -
  obtain e es where es: "entries b = e # es" and p: "\<not> is_placeholder e"
    and len: "length m = psize e"
    using pk by (auto simp: peeked_def)
  obtain fs where fs: "ring b' (entries b @ fs)" and fr: "same_frame b b'" and inv': "buffer_inv b'"
    and pay: "payloads (data b') (capacity b') (entries b) = messages b"
    using inv msg w by (rule write_prefix)
  show "buffer_inv b'" by fact
  have r: "ring b (e # es)"
    using inv es by (auto elim!: buffer_invE)
  have r': "ring b' (e # es @ fs)"
    using fs es by simp
  have same: "payload_bytes (data b') (capacity b') e = payload_bytes (data b) (capacity b) e"
    using pay es p by (simp add: messages_def)
  have "read_bytes (data b) (ring_pos (capacity b) (head_of b) + 24) (psize e) = Some m"
    using pk len by (simp only: peeked_def)
  then have "m = payload_bytes (data b) (capacity b) e"
    using ring_head_payload(1) [OF r p] by simp
  moreover have "head_of b' = head_of b" and "capacity b' = capacity b"
    using fr same_frame_capacity [OF fr] by (simp_all add: same_frame_def)
  moreover have "read_bytes (data b') (ring_pos (capacity b') (head_of b') + 24) (length m) =
      Some (payload_bytes (data b') (capacity b') e)"
    using ring_head_payload(1) [OF r' p] len by simp
  moreover have "entries b' = e # es @ fs"
    using r' by (rule ring_entries)
  ultimately show "peeked b' entry m"
    using pk same p es by (auto simp: peeked_def)
qed

lemma peek_returns:
  assumes "buffer_inv b" and "length (entries b) < fuel"
  obtains r entry' b' where "ipc_buffer_peek fuel (Some b) (Some entry) = Done (r, Some entry', Some b')"
proof -
  obtain es where "ring b es" and "unlocked b" and "entries b = es"
    using assms(1) by (rule buffer_invE)
  then show ?thesis
    using that ipc_buffer_peek_correct [of b es fuel entry] assms(2) by blast
qed

lemma peeked_skip:
  assumes inv: "buffer_inv b" and pk: "peeked b entry m"
  shows "payload entry = In_Buffer (ring_pos (capacity b) (head_of b) + 24)"
    and "read_bytes (data b) (ring_pos (capacity b) (head_of b) + 24) (unat (entry_len entry)) = Some m"
    and "\<exists>b'. ipc_buffer_skip 1 (Some b) (entry_offset entry) =
      Done (result_ok IPC_OK (entry_offset entry), Some b') \<and> messages b = m # messages b'"
proof -
  show "payload entry = In_Buffer (ring_pos (capacity b) (head_of b) + 24)"
    and rd: "read_bytes (data b) (ring_pos (capacity b) (head_of b) + 24) (unat (entry_len entry)) = Some m"
    using pk by (simp_all add: peeked_def)
  obtain e es where es: "entries b = e # es" and p: "\<not> is_placeholder e"
    and len: "entry_len entry = payload_size e" and off: "entry_offset entry = head_of b"
    using pk by (auto simp: peeked_def)
  have r: "ring b (e # es)" and u: "unlocked b"
    using inv es by (auto elim!: buffer_invE)
  have "m = payload_bytes (data b) (capacity b) e"
    using rd ring_head_payload(1) [OF r p] len by simp
  then show "\<exists>b'. ipc_buffer_skip 1 (Some b) (entry_offset entry) =
      Done (result_ok IPC_OK (entry_offset entry), Some b') \<and> messages b = m # messages b'"
    using skip_message [OF r u p, of 0] ring_advance(2) [OF r] p off
    by (simp del: ipc_buffer_skip.simps)
qed

text \<open>
  C11. The pointer that \<open>ipc_buffer_peek\<close> returns is good until the entry is consumed: after any
  number of writes it still reads the oldest message, and \<open>ipc_buffer_skip\<close> with the offset of
  the peeked entry then consumes exactly that message.
\<close>

theorem peeked_pointer_survives_writes:
  assumes "buffer_inv b" and "length (entries b) < fuel" and "messages b = m # rest"
    and "ipc_buffer_peek fuel (Some b) (Some entry) = Done (r, Some entry', Some b1)"
    and "\<forall>x \<in> set sent. valid_bytes x"
  shows "\<exists>p b2 b3. b2 = fold (\<lambda>x b. snd (buffer_send x b)) sent b1 \<and>
    payload entry' = In_Buffer p \<and> read_bytes (data b2) p (unat (entry_len entry')) = Some m \<and>
    ipc_buffer_skip 1 (Some b2) (entry_offset entry') =
      Done (result_ok IPC_OK (entry_offset entry'), Some b3) \<and>
    messages b2 = m # messages b3"
proof -
  obtain es where "ring b es" and "unlocked b" and "entries b = es"
    using assms(1) by (rule buffer_invE)
  then have "buffer_inv b1" and "peeked b1 entry' m"
    using ipc_buffer_peek_correct [of b es fuel entry] assms(2-4)
    by (auto simp: buffer_inv_def simp del: ipc_buffer_peek.simps)
  then have inv: "buffer_inv (fold (\<lambda>x b. snd (buffer_send x b)) sent b1) \<and>
      peeked (fold (\<lambda>x b. snd (buffer_send x b)) sent b1) entry' m"
    using assms(5)
  proof (induction sent arbitrary: b1)
    case (Cons x sent)
    have x: "valid_bytes x"
      using Cons.prems(3) by simp
    obtain r where "ipc_buffer_write 2 (Some b1) (Some x) (word_of_nat (length x)) =
        Done (r, Some (snd (buffer_send x b1)))"
      using buffer_send_write [OF Cons.prems(1) x] by blast
    from peeked_write [OF Cons.prems(1,2) valid_bytes_message [OF x] this] show ?case
      using Cons by simp
  qed simp
  show ?thesis
    using peeked_skip [OF conjunct1 [OF inv] conjunct2 [OF inv]] by blast
qed

theorem peeked_pointer_survives_writes_witness:
  "\<exists>r entry' b1 p. ipc_buffer_peek 200 (Some one_message)
      (Some \<lparr>entry_offset = 0, payload = Null, entry_len = 0\<rparr>) = Done (r, Some entry', Some b1) \<and>
    payload entry' = In_Buffer p \<and>
    read_bytes (data (snd (buffer_send [5, 6] b1))) p (unat (entry_len entry')) = Some [1, 2, 3]"
proof -
  obtain r entry' b1 where pk: "ipc_buffer_peek 200 (Some one_message)
      (Some \<lparr>entry_offset = 0, payload = Null, entry_len = 0\<rparr>) = Done (r, Some entry', Some b1)"
    using one_message_facts(1) one_message_entries peek_returns by blast
  show ?thesis
    using peeked_pointer_survives_writes [OF one_message_facts(1) one_message_entries
        one_message_facts(2) pk, of "[[5, 6]]"] pk
    by (auto simp: valid_bytes_def simp del: ipc_buffer_peek.simps ipc_buffer_skip.simps)
qed

section \<open>Skipping\<close>

lemma skip_cases:
  assumes r: "ring b es" and u: "unlocked b"
  shows "\<exists>r b'. ipc_buffer_skip 2 (Some b) off = Done (r, Some b') \<and> ring_ok b' \<and> unlocked b' \<and>
    (if \<not> 8 dvd unat off then ipc_status r = IPC_ERR_INVALID_ARGUMENT \<and> b' = b
     else if off \<noteq> head_of b then ipc_status r = IPC_ERR_OFFSET_MISMATCH \<and> b' = b \<and>
       error_body r = Some \<lparr>se_offset = head_of b\<rparr>
     else case es of
         [] \<Rightarrow> r = result_ok IPC_EMPTY off \<and> b' = b
       | e # es \<Rightarrow> head_of b' = off + entry_size e \<and>
           (if is_placeholder e
            then ipc_status r = IPC_ERR_OFFSET_MISMATCH \<and> messages b' = messages b
            else r = result_ok IPC_OK off \<and>
              messages b = payload_bytes (data b) (capacity b) e # messages b'))"
proof -
  have h: "\<not> is_locked (head (header b))" "head_of b = head (header b)"
    using u unlocked_head by (auto simp: unlocked_def)
  consider (misaligned) "\<not> 8 dvd unat off" | (mismatch) "8 dvd unat off" "off \<noteq> head_of b"
    | (empty) "8 dvd unat off" "off = head_of b" "es = []"
    | (entry) e es' where "8 dvd unat off" "off = head_of b" "es = e # es'"
    by (cases es) auto
  then show ?thesis
  proof cases
    case misaligned
    then show ?thesis
      using r u by (auto simp: numeral_2_eq_2 is_aligned_iff ring_ok_iff)
  next
    case mismatch
    then show ?thesis
      using skip_mismatch [of b off 1] h r u
      by (auto simp: numeral_2_eq_2 is_aligned_iff ring_ok_iff simp del: ipc_buffer_skip.simps)
  next
    case empty
    then show ?thesis
      using skip_empty [of b 1] r u
      by (auto simp: numeral_2_eq_2 ring_ok_iff simp del: ipc_buffer_skip.simps)
  next
    case entry
    then have r': "ring b (e # es')"
      using r by simp
    have "\<not> is_locked (head_of b + entry_size e)"
      using ring_advance(3) [OF r'] by simp
    then show ?thesis
      using skip_message [OF r' u, of 1] skip_placeholder [OF r' u, of 0] ring_advance(1,2) [OF r']
        advance_unlocked [OF r' u] entry
      by (cases "is_placeholder e")
        (auto simp: numeral_2_eq_2 ring_ok_iff simp del: ipc_buffer_skip.simps)
  qed
qed

text \<open>
  C15. \<open>ipc_buffer_skip\<close> on every branch, run alone: an offset that is not a multiple of 8 or is
  not \<open>head\<close> changes nothing and is reported (with the actual \<open>head\<close>); at a message the message
  is consumed unread; at a placeholder \<open>head\<close> moves behind it although the status is
  \<open>IPC_ERR_OFFSET_MISMATCH\<close>.
\<close>

theorem skip_on_every_branch:
  assumes "buffer_inv b"
  shows "\<exists>r b'. ipc_buffer_skip 2 (Some b) off = Done (r, Some b') \<and> buffer_inv b' \<and>
    (if \<not> 8 dvd unat off then ipc_status r = IPC_ERR_INVALID_ARGUMENT \<and> b' = b
     else if off \<noteq> head_of b then ipc_status r = IPC_ERR_OFFSET_MISMATCH \<and> b' = b \<and>
       error_body r = Some \<lparr>se_offset = head_of b\<rparr>
     else case entries b of
         [] \<Rightarrow> r = result_ok IPC_EMPTY off \<and> b' = b
       | e # es \<Rightarrow> head_of b' = off + entry_size e \<and>
           (if is_placeholder e
            then ipc_status r = IPC_ERR_OFFSET_MISMATCH \<and> messages b' = messages b
            else r = result_ok IPC_OK off \<and>
              messages b = payload_bytes (data b) (capacity b) e # messages b'))"
proof -
  from assms obtain es where es: "ring b es" "unlocked b" and ents: "entries b = es"
    by (rule buffer_invE)
  show ?thesis
    using skip_cases [OF es, of off] unfolding buffer_inv_def ents by (simp only: conj_assoc)
qed

theorem skip_on_every_branch_witness:
  "\<exists>r b'. ipc_buffer_skip 2 (Some (empty_buffer 128)) 0 = Done (r, Some b') \<and>
    ipc_status r = IPC_EMPTY"
  using skip_on_every_branch [OF empty_128(1), of 0] empty_128(2)
  by (auto simp del: ipc_buffer_skip.simps)

text \<open>
  C16. \<open>ipc_buffer_skip_force\<close> run alone: on an empty buffer nothing changes; where \<open>head\<close> is
  unlocked the entry at \<open>head\<close>, message or placeholder, is dropped and the old offset returned;
  where \<open>head\<close> is locked nothing changes and the status is \<open>IPC_ALREADY_SKIPPED\<close>, whoever holds
  the lock. A locked \<open>tail\<close> makes no difference.
\<close>

theorem skip_force_on_every_branch:
  assumes "ring_ok b"
  shows "ipc_buffer_skip_force (Some b) =
    (case entries b of
       [] \<Rightarrow> Done (result_ok IPC_EMPTY (head_of b), Some b)
     | e # es \<Rightarrow>
         if is_locked (head (header b))
         then Done (result_ok IPC_ALREADY_SKIPPED (head (header b)), Some b)
         else Done (result_ok IPC_OK (head_of b), Some (set_head (head_of b + entry_size e) b))) \<and>
    (\<forall>e es. entries b = e # es \<longrightarrow>
       entries (set_head (head_of b + entry_size e) b) = es \<and>
       ring_ok (set_head (head_of b + entry_size e) b))"
proof (cases "entries b")
  case Nil
  then show ?thesis
    using assms skip_force_empty [of b] by (simp add: ring_ok_def)
next
  case (Cons e es)
  then have r: "ring b (e # es)"
    using assms by (simp add: ring_ok_def)
  show ?thesis
    using skip_force_entry [OF r] ring_advance(1) [OF r] ring_entries [OF ring_advance(1) [OF r]] Cons
    by (auto simp: ring_ok_iff)
qed

theorem skip_force_on_every_branch_witness:
  "ipc_buffer_skip_force (Some (empty_buffer 128)) = Done (result_ok IPC_EMPTY 0, Some (empty_buffer 128))"
  using skip_force_on_every_branch [of "empty_buffer 128"] empty_128(1,2)
  by (simp add: buffer_inv_def)

section \<open>Locked cursors\<close>

text \<open>
  Writers exclude each other: while \<open>tail\<close> is locked, a write returns \<open>IPC_ERR_LOCKED\<close> at
  once (or an error found before \<open>tail\<close> is looked at) and changes nothing.
\<close>

theorem locked_tail_excludes_writers:
  assumes "is_locked (tail (header b))"
  shows "\<exists>r. ipc_buffer_write (Suc fuel) (Some b) src n = Done (r, Some b) \<and>
    ipc_status r = (if src = None \<or> n = 0 then IPC_ERR_INVALID_ARGUMENT
      else if data_size (header b) < full_entry_size n then IPC_ERR_ENTRY_TOO_LARGE
      else IPC_ERR_LOCKED)"
  using assms by (cases src) (simp_all add: Let_def)

theorem locked_tail_excludes_writers_witness:
  "\<exists>r. ipc_buffer_write 1 (Some (set_tail 1 (empty_buffer 128))) (Some [1]) 1 =
      Done (r, Some (set_tail 1 (empty_buffer 128))) \<and> ipc_status r = IPC_ERR_LOCKED"
  using locked_tail_excludes_writers [of "set_tail 1 (empty_buffer 128)" 0 "Some [1]" 1]
  by (simp add: is_locked_iff full_entry_size_def sizeof_EntryHeader_def IPC_DATA_ALIGN_def
      ALIGN_UP_def del: ipc_buffer_write.simps)

text \<open>
  Consumers exclude each other: while \<open>head\<close> is locked, a read, a peek and a skip return
  \<open>IPC_ERR_LOCKED\<close> at once with the offset of the locked entry, and change neither the buffer nor
  the destination.
\<close>

theorem locked_head_excludes_consumers:
  assumes "is_locked (head (header b))"
  shows "ipc_buffer_read (Suc fuel) (Some b) (Some entry) =
      Done (result_error_body IPC_ERR_LOCKED ''entry is locked''
        \<lparr>re_offset = head_of b, re_required_size = 0\<rparr>, Some entry, Some b) \<and>
    ipc_buffer_peek (Suc fuel) (Some b) (Some entry) =
      Done (result_error_body IPC_ERR_LOCKED ''entry is locked''
        \<lparr>pe_offset = head_of b\<rparr>, Some entry, Some b) \<and>
    (8 dvd unat off \<longrightarrow> ipc_buffer_skip (Suc fuel) (Some b) off =
      Done (result_error_body IPC_ERR_LOCKED ''entry is locked''
        \<lparr>se_offset = head_of b\<rparr>, Some b))"
  using assms by (simp add: read_head_def is_aligned_iff Let_def)

theorem locked_head_excludes_consumers_witness:
  "ipc_buffer_read 1 (Some (set_head 1 (empty_buffer 128)))
      (Some \<lparr>entry_offset = 0, payload = Null, entry_len = 0\<rparr>) =
    Done (result_error_body IPC_ERR_LOCKED ''entry is locked'' \<lparr>re_offset = 0, re_required_size = 0\<rparr>,
      Some \<lparr>entry_offset = 0, payload = Null, entry_len = 0\<rparr>, Some (set_head 1 (empty_buffer 128)))"
  using locked_head_excludes_consumers [of "set_head 1 (empty_buffer 128)" 0
      "\<lparr>entry_offset = 0, payload = Null, entry_len = 0\<rparr>" 0]
  by (simp add: is_locked_iff UNLOCK_def del: ipc_buffer_read.simps)

text \<open>
  While a writer holds \<open>tail\<close>, unread entries are not handed out: on a non-empty buffer a
  read, a peek and a skip at \<open>head\<close> return \<open>IPC_ERR_NOT_READY\<close> and leave the buffer exactly as it
  was, with \<open>head\<close> unlocked again.
\<close>

theorem consumers_wait_for_writer:
  assumes "ring_ok b" and "entries b \<noteq> []" and "\<not> is_locked (head (header b))"
    and "is_locked (tail (header b))"
  shows "(\<exists>r. ipc_buffer_read (Suc fuel) (Some b) (Some entry) = Done (r, Some entry, Some b) \<and>
      ipc_status r = IPC_ERR_NOT_READY) \<and>
    (\<exists>r. ipc_buffer_peek (Suc fuel) (Some b) (Some entry) = Done (r, Some entry, Some b) \<and>
      ipc_status r = IPC_ERR_NOT_READY) \<and>
    (\<exists>r. ipc_buffer_skip (Suc fuel) (Some b) (head_of b) = Done (r, Some b) \<and>
      ipc_status r = IPC_ERR_NOT_READY)"
proof -
  obtain e es where r: "ring b (e # es)"
    using assms(1,2) by (cases "entries b") (auto simp: ring_ok_def)
  have "is_aligned (head_of b)" and "head_of b = head (header b)"
    using r assms(3) by (simp_all add: ring_def is_aligned_iff)
  then show ?thesis
    using read_entry_header_ring [OF r assms(3), of "LOCK (head (header b))"] assms(3,4)
    by (simp add: claim_head_unlocked claim_head_at_here del: claim_head.simps claim_head_at.simps)
qed

theorem consumers_wait_for_writer_witness:
  "\<exists>r. ipc_buffer_read 1 (Some (set_tail (LOCK (tail (header one_message))) one_message))
      (Some \<lparr>entry_offset = 0, payload = Null, entry_len = 0\<rparr>) =
    Done (r, Some \<lparr>entry_offset = 0, payload = Null, entry_len = 0\<rparr>,
      Some (set_tail (LOCK (tail (header one_message))) one_message)) \<and>
    ipc_status r = IPC_ERR_NOT_READY"
proof -
  let ?b = "set_tail (LOCK (tail (header one_message))) one_message"
  obtain es where es: "ring one_message es" "entries one_message = es"
    "\<not> is_locked (head (header one_message))"
    using one_message_facts(1) by (rule buffer_invE)
  then have "ring ?b es" and "es \<noteq> []"
    using one_message_facts(2) by (auto simp: messages_def)
  then show ?thesis
    using consumers_wait_for_writer [of ?b 0 "\<lparr>entry_offset = 0, payload = Null, entry_len = 0\<rparr>"]
      es(3) ring_entries [of ?b es]
    by (simp add: ring_ok_def del: ipc_buffer_read.simps ipc_buffer_peek.simps ipc_buffer_skip.simps)
qed

section \<open>Invalid arguments\<close>

lemma odd_not_aligned: "\<not> is_aligned (8 * k + 1)"
proof -
  have "odd (unat (8 * k + 1))"
    using is_locked_odd [of "8 * k + 1"] by (simp add: is_locked_iff bit_0)
  then show ?thesis
    by (auto simp: is_aligned_iff elim: dvd_trans [of 2 8, rotated])
qed

text \<open>
  Every operation refuses a \<open>NULL\<close> buffer, a \<open>NULL\<close> destination, \<open>NULL\<close> data, a size of 0 and a
  misaligned offset with \<open>IPC_ERR_INVALID_ARGUMENT\<close>, and changes nothing.
\<close>

theorem invalid_arguments_refused:
  "(\<exists>r. ipc_buffer_write (Suc fuel) None src n = Done (r, None) \<and>
      ipc_status r = IPC_ERR_INVALID_ARGUMENT) \<and>
   (\<exists>r. ipc_buffer_write (Suc fuel) (Some b) None n = Done (r, Some b) \<and>
      ipc_status r = IPC_ERR_INVALID_ARGUMENT) \<and>
   (\<exists>r. ipc_buffer_write (Suc fuel) (Some b) (Some bytes) 0 = Done (r, Some b) \<and>
      ipc_status r = IPC_ERR_INVALID_ARGUMENT) \<and>
   (\<exists>r. ipc_buffer_read (Suc fuel) None dest = Done (r, dest, None) \<and>
      ipc_status r = IPC_ERR_INVALID_ARGUMENT) \<and>
   (\<exists>r. ipc_buffer_read (Suc fuel) (Some b) None = Done (r, None, Some b) \<and>
      ipc_status r = IPC_ERR_INVALID_ARGUMENT) \<and>
   (\<exists>r. ipc_buffer_peek (Suc fuel) None dest = Done (r, dest, None) \<and>
      ipc_status r = IPC_ERR_INVALID_ARGUMENT) \<and>
   (\<exists>r. ipc_buffer_peek (Suc fuel) (Some b) None = Done (r, None, Some b) \<and>
      ipc_status r = IPC_ERR_INVALID_ARGUMENT) \<and>
   (\<exists>r. ipc_buffer_skip (Suc fuel) None off = Done (r, None) \<and>
      ipc_status r = IPC_ERR_INVALID_ARGUMENT) \<and>
   (\<exists>r. ipc_buffer_skip (Suc fuel) (Some b) (8 * k + 1) = Done (r, Some b) \<and>
      ipc_status r = IPC_ERR_INVALID_ARGUMENT) \<and>
   (\<exists>r. ipc_buffer_skip_force None = Done (r, None) \<and> ipc_status r = IPC_ERR_INVALID_ARGUMENT)"
  using odd_not_aligned [of k] by (simp add: ipc_buffer_skip_force_def Let_def)

section \<open>Sequences of operations\<close>

text \<open>
  C8. First in, first out, for every sequence of writes and reads: the messages that were in the
  buffer followed by the messages whose write returned \<open>IPC_OK\<close> are exactly the messages that the
  reads delivered followed by the messages still in the buffer, in this order. Nothing is lost,
  duplicated, reordered or altered, across wrap-arounds and placeholders.
\<close>

theorem buffer_fifo:
  assumes "buffer_inv b" and "\<forall>m \<in> set (sends ops). valid_bytes m"
    and "run_ops buffer_send buffer_recv ops b = (accepted, delivered, b')"
  shows "messages b @ accepted = delivered @ messages b' \<and> buffer_inv b'"
  using ring_queue.run_fifo [OF assms] by blast

theorem buffer_fifo_witness:
  "\<exists>accepted delivered b'. run_ops buffer_send buffer_recv [Send [1, 2], Receive, Send [3], Receive, Receive]
      (empty_buffer 128) = (accepted, delivered, b') \<and> accepted = delivered @ messages b'"
  using buffer_fifo [OF empty_128(1), of "[Send [1, 2], Receive, Send [3], Receive, Receive]"] empty_128(3)
  by (cases "run_ops buffer_send buffer_recv [Send [1, 2], Receive, Send [3], Receive, Receive]
      (empty_buffer 128)") (simp add: valid_bytes_def)

text \<open>
  Draining: as many reads as there are messages deliver all of them in order and leave an
  empty queue.
\<close>

theorem buffer_drain:
  assumes "buffer_inv b"
  shows "\<exists>b'. run_ops buffer_send buffer_recv (replicate (length (messages b)) Receive) b =
      ([], messages b, b') \<and> buffer_inv b' \<and> messages b' = []"
  using assms by (rule ring_queue.drain)

theorem buffer_drain_witness:
  "\<exists>b'. run_ops buffer_send buffer_recv [Receive] one_message = ([], [[1, 2, 3]], b') \<and> messages b' = []"
  using buffer_drain [OF one_message_facts(1)] one_message_facts(2)
  by (auto simp: Let_def split: prod.splits)

text \<open>
  What is peeked is what is read next: the read that follows a peek delivers exactly the
  bytes that the peek designated, and neither has anything on an empty queue.
\<close>

theorem peek_then_read:
  assumes "buffer_inv b"
  shows "fst (buffer_recv (snd (buffer_peek b))) = fst (buffer_peek b)"
  using assms by (rule ring_queue.peek_then_recv)

theorem peek_then_read_witness:
  "fst (buffer_recv (snd (buffer_peek one_message))) = fst (buffer_peek one_message)"
  by (rule peek_then_read [OF one_message_facts(1)])

end
