(* ===== verification/Buffer_Object.thy ===== *)
theory Buffer_Object
  imports Buffer_Spec C_Memory
begin

text \<open>
  \<open>ipc_buffer_create\<close> and \<open>ipc_buffer_attach\<close> of \<^verbatim>\<open>core/src/ipc_buffer.c\<close>: the handles through
  which a process reaches a buffer in shared memory. \<open>struct IpcBufferHeader\<close> has \<open>head\<close> at byte
  0, \<open>data_size\<close> at byte 8 and \<open>tail\<close> at byte 64, and is 128 bytes long; the data area follows.
\<close>

section \<open>The buffer behind a handle\<close>

definition buffer_view :: "store \<Rightarrow> buffer_handle \<Rightarrow> IpcBuffer option" where
  "buffer_view s p = do {
     d \<leftarrow> bytes_at (header_ptr p) s;
     h \<leftarrow> load_u64 d 0;
     n \<leftarrow> load_u64 d 8;
     t \<leftarrow> load_u64 d 64;
     area \<leftarrow> bytes_at (data_ptr p) s;
     Some \<lparr>header = \<lparr>head = h, data_size = n, tail = t\<rparr>, data = area\<rparr>
   }"

text \<open>The state that an operation leaves, stored back through the handle.\<close>

definition buffer_put :: "buffer_handle \<Rightarrow> IpcBuffer \<Rightarrow> store \<Rightarrow> store option" where
  "buffer_put p b s = do {
     s \<leftarrow> store_at (header_ptr p) (le_bytes (head (header b))) s;
     s \<leftarrow> store_at (ptr_add (header_ptr p) 8) (le_bytes (data_size (header b))) s;
     s \<leftarrow> store_at (ptr_add (header_ptr p) 64) (le_bytes (tail (header b))) s;
     store_at (data_ptr p) (data b) s
   }"

section \<open>Create and attach\<close>

record IpcBufferCreateError =
  bce_requested_size :: u64
  bce_min_size :: u64
  bce_sys_errno :: u32

type_synonym IpcBufferCreateResult = "(ptr, IpcBufferCreateError) ipc_result"

definition buffer_handle_at :: "ptr \<Rightarrow> buffer_handle" where
  "buffer_handle_at mem =
     \<lparr>header_ptr = mem, data_ptr = ptr_add mem (unat BUFFER_HEADER_SIZE_ALIGNED)\<rparr>"

definition ipc_buffer_create :: "ptr \<Rightarrow> u64 \<Rightarrow> store \<Rightarrow> (IpcBufferCreateResult \<times> store) run" where
  "ipc_buffer_create mem n s =
     (let error = \<lparr>bce_requested_size = n, bce_min_size = BUFFER_HEADER_SIZE_ALIGNED,
                   bce_sys_errno = 0\<rparr>
      in if mem = NULL then
           Done (result_error_body IPC_ERR_INVALID_ARGUMENT ''invalid argument: mem is NULL'' error, s)
         else if n < BUFFER_HEADER_SIZE_ALIGNED then
           Done (result_error_body IPC_ERR_INVALID_ARGUMENT
             ''invalid argument: buffer size too small'' error, s)
         else
           let data_capacity = n - BUFFER_HEADER_SIZE_ALIGNED
           in case is_power_of_2 data_capacity of
                None \<Rightarrow> Timeout
              | Some False \<Rightarrow> Done (result_error_body IPC_ERR_INVALID_ARGUMENT
                  ''size must be pover of 2'' error, s)
              | Some True \<Rightarrow>
                  (case malloc (Buffer_Obj (buffer_handle_at mem)) s of
                     (NULL, s) \<Rightarrow> Done (result_error_body IPC_ERR_SYSTEM
                        ''system error: buffer allocation failed''
                        (error\<lparr>bce_sys_errno := errno s\<rparr>), s)
                   | (buffer, s) \<Rightarrow>
                       access (do {
                           s \<leftarrow> store_at (ptr_add mem 8) (le_bytes data_capacity) s;
                           s \<leftarrow> store_at mem (le_bytes 0) s;
                           store_at (ptr_add mem 64) (le_bytes 0) s
                         }) (\<lambda>s. Done (result_ok IPC_OK buffer, s))))"

record IpcBufferAttachError =
  bae_min_size :: u64
  bae_sys_errno :: u32

type_synonym IpcBufferAttachResult = "(ptr, IpcBufferAttachError) ipc_result"

definition ipc_buffer_attach :: "ptr \<Rightarrow> store \<Rightarrow> IpcBufferAttachResult \<times> store" where
  "ipc_buffer_attach mem s =
     (let error = \<lparr>bae_min_size = BUFFER_HEADER_SIZE_ALIGNED, bae_sys_errno = 0\<rparr>
      in if mem = NULL then
           (result_error_body IPC_ERR_INVALID_ARGUMENT ''invalid argument: mem is NULL'' error, s)
         else case malloc (Buffer_Obj (buffer_handle_at mem)) s of
           (NULL, s) \<Rightarrow> (result_error_body IPC_ERR_SYSTEM ''system error: allocation failed''
              (error\<lparr>bae_sys_errno := errno s\<rparr>), s)
         | (buffer, s) \<Rightarrow> (result_ok IPC_OK buffer, s))"

section \<open>Operations through a handle\<close>

definition buffer_object :: "store \<Rightarrow> ptr \<Rightarrow> buffer_handle option" where
  "buffer_object s p = (case p of
     NULL \<Rightarrow> None
   | Ptr a off \<Rightarrow>
       if off \<noteq> 0 then None
       else (case objects s a of Some (Buffer_Obj h) \<Rightarrow> Some h | _ \<Rightarrow> None))"

lemma buffer_object_Some_iff:
  "buffer_object s p = Some h \<longleftrightarrow> (\<exists>a. p = Ptr a 0 \<and> objects s a = Some (Buffer_Obj h))"
  by (cases p) (auto simp: buffer_object_def split: option.splits cobject.splits)

text \<open>An operation of the ring buffer applied through an \<open>IpcBuffer *\<close>.\<close>

definition on_buffer :: "ptr \<Rightarrow> (IpcBuffer option \<Rightarrow> ('r \<times> IpcBuffer option) run) \<Rightarrow> store \<Rightarrow>
    ('r \<times> store) run" where
  "on_buffer p f s =
     (if p = NULL then bind_run (f None) (\<lambda>(r, _). Done (r, s))
      else access (buffer_object s p) (\<lambda>h.
           access (buffer_view s h) (\<lambda>b.
           bind_run (f (Some b)) (\<lambda>(r, b').
             case b' of None \<Rightarrow> Done (r, s)
             | Some b' \<Rightarrow> access (buffer_put h b' s) (\<lambda>s. Done (r, s))))))"

section \<open>Facts on views\<close>

lemma drop_write_bytes_before:
  assumes "write_bytes d p bs = Some d'" and "p + length bs \<le> q"
  shows "drop q d' = drop q d"
  using assms by (auto simp: write_bytes_Some_iff drop_append min_def)

lemma load_u64_drop: "load_u64 (drop q d) p = load_u64 d (q + p)" if "q \<le> length d"
  using that by (auto simp: load_u64_def read_bytes_def add.assoc add.commute)

lemma object_bytes_malloc:
  assumes "objects s (fresh s) = None" and "object_bytes s a = Some d"
  shows "object_bytes (s\<lparr>objects := (objects s)(fresh s \<mapsto> obj), fresh := n, script := t\<rparr>) a = Some d"
  using assms by (auto simp: object_bytes_def)

text \<open>A buffer as \<open>ipc_buffer_create\<close> leaves it: no entries, whatever the data area holds.\<close>

lemma fresh_ring:
  assumes "is_power_of_2 n = Some True" and "unat n \<le> length d"
  defines "b \<equiv> \<lparr>header = \<lparr>head = 0, data_size = n, tail = 0\<rparr>, data = d\<rparr>"
  shows "buffer_inv b" and "messages b = []"
proof -
  have z: "UNLOCK 0 = 0" and l: "\<not> is_locked 0"
    by (simp_all add: UNLOCK_def is_locked_iff)
  have "ring b []"
    using assms by (simp add: ring_def b_def capacity_def z ring_pos_def)
  then show "buffer_inv b" and "messages b = []"
    using l ring_messages [of b "[]"]
    by (auto simp: buffer_inv_def ring_ok_iff unlocked_def b_def)
qed

lemma create_stores:
  assumes "object_bytes s a = Some d" and "off + 128 \<le> length d"
  obtains s' where "do {
      s \<leftarrow> store_at (ptr_add (Ptr a off) 8) (le_bytes n) s;
      s \<leftarrow> store_at (Ptr a off) (le_bytes 0) s;
      store_at (ptr_add (Ptr a off) 64) (le_bytes 0) s } = Some s'"
    and "buffer_view s' (buffer_handle_at (Ptr a off)) =
      Some \<lparr>header = \<lparr>head = 0, data_size = n, tail = 0\<rparr>, data = drop (off + 128) d\<rparr>"
    and "\<And>c. c \<noteq> a \<Longrightarrow> objects s' c = objects s c" and "fresh s' = fresh s"
    and "dom (objects s') = dom (objects s)" and "script s' = script s"
proof -
  obtain d1 where d1: "write_bytes d (off + 8) (le_bytes n) = Some d1"
    using assms by (auto simp: write_bytes_def)
  note l1 = length_write_bytes [OF d1]
  obtain d2 where d2: "write_bytes d1 off (le_bytes 0) = Some d2"
    using assms l1 by (auto simp: write_bytes_def)
  note l2 = length_write_bytes [OF d2]
  obtain d3 where d3: "write_bytes d2 (off + 64) (le_bytes 0) = Some d3"
    using assms l1 l2 by (auto simp: write_bytes_def)
  note l3 = length_write_bytes [OF d3]
  let ?s = "s\<lparr>objects := (objects s)(a \<mapsto> Bytes d3)\<rparr>"
  have run: "do {
      s \<leftarrow> store_at (ptr_add (Ptr a off) 8) (le_bytes n) s;
      s \<leftarrow> store_at (Ptr a off) (le_bytes 0) s;
      store_at (ptr_add (Ptr a off) 64) (le_bytes 0) s } = Some ?s"
    using assms(1) d1 d2 d3 by (simp add: object_bytes_def)
  have "load_u64 d3 (off + 8) = Some n"
    using load_store_same [of d "off + 8" n d1] load_store_disjoint [of d1 off 0 d2 "off + 8"]
      load_store_disjoint [of d2 "off + 64" 0 d3 "off + 8"] d1 d2 d3 by (simp add: store_u64_def)
  moreover have "load_u64 d3 off = Some 0"
    using load_store_same [of d1 off 0 d2] load_store_disjoint [of d2 "off + 64" 0 d3 off] d2 d3
    by (simp add: store_u64_def)
  moreover have "load_u64 d3 (off + 64) = Some 0"
    using load_store_same [of d2 "off + 64" 0 d3] d3 by (simp add: store_u64_def)
  moreover have "drop (off + 128) d3 = drop (off + 128) d"
    using drop_write_bytes_before [OF d1, of "off + 128"] drop_write_bytes_before [OF d2, of "off + 128"]
      drop_write_bytes_before [OF d3, of "off + 128"] by simp
  ultimately have "buffer_view ?s (buffer_handle_at (Ptr a off)) =
      Some \<lparr>header = \<lparr>head = 0, data_size = n, tail = 0\<rparr>, data = drop (off + 128) d\<rparr>"
    using assms l1 l2 l3
    by (simp add: buffer_view_def buffer_handle_at_def BUFFER_HEADER_SIZE_ALIGNED_def
        object_bytes_def load_u64_drop)
  moreover have "dom (objects ?s) = dom (objects s)"
    using assms(1) by (auto simp: object_bytes_def split: option.splits)
  ultimately show ?thesis
    using that [OF run] by simp
qed

text \<open>Storing a state back and viewing it again.\<close>

lemma buffer_view_put:
  assumes d: "object_bytes s a = Some d" and len: "length (data b) = length d - (off + 128)"
    and fits: "off + 128 \<le> length d"
  obtains s' where "buffer_put (buffer_handle_at (Ptr a off)) b s = Some s'"
    and "buffer_view s' (buffer_handle_at (Ptr a off)) = Some b"
    and "\<And>c. c \<noteq> a \<Longrightarrow> objects s' c = objects s c"
    and "\<exists>d'. object_bytes s' a = Some d' \<and> length d' = length d"
proof -
  let ?h = "le_bytes (head (header b))" and ?n = "le_bytes (data_size (header b))"
    and ?t = "le_bytes (tail (header b))"
  obtain d1 where d1: "write_bytes d off ?h = Some d1"
    using fits by (auto simp: write_bytes_def)
  note l1 = length_write_bytes [OF d1]
  obtain d2 where d2: "write_bytes d1 (off + 8) ?n = Some d2"
    using fits l1 by (auto simp: write_bytes_def)
  note l2 = length_write_bytes [OF d2]
  obtain d3 where d3: "write_bytes d2 (off + 64) ?t = Some d3"
    using fits l1 l2 by (auto simp: write_bytes_def)
  note l3 = length_write_bytes [OF d3]
  obtain d4 where d4: "write_bytes d3 (off + 128) (data b) = Some d4"
    using fits len l1 l2 l3 by (auto simp: write_bytes_def)
  note l4 = length_write_bytes [OF d4]
  let ?s = "s\<lparr>objects := (objects s)(a \<mapsto> Bytes d4)\<rparr>"
  have put: "buffer_put (buffer_handle_at (Ptr a off)) b s = Some ?s"
    using d d1 d2 d3 d4
    by (simp add: buffer_put_def buffer_handle_at_def BUFFER_HEADER_SIZE_ALIGNED_def object_bytes_def)
  have keep: "load_u64 d4 q = load_u64 d3 q" if "q + 8 \<le> off + 128" for q
    using read_bytes_write_disjoint [OF d4, of q 8] that by (simp add: load_u64_def)
  have "load_u64 d4 off = Some (head (header b))"
    using keep [of off] load_store_same [of d off "head (header b)" d1]
      load_store_disjoint [of d1 "off + 8" "data_size (header b)" d2 off]
      load_store_disjoint [of d2 "off + 64" "tail (header b)" d3 off] d1 d2 d3
    by (simp add: store_u64_def)
  moreover have "load_u64 d4 (off + 8) = Some (data_size (header b))"
    using keep [of "off + 8"] load_store_same [of d1 "off + 8" "data_size (header b)" d2]
      load_store_disjoint [of d2 "off + 64" "tail (header b)" d3 "off + 8"] d2 d3
    by (simp add: store_u64_def)
  moreover have "load_u64 d4 (off + 64) = Some (tail (header b))"
    using keep [of "off + 64"] load_store_same [of d2 "off + 64" "tail (header b)" d3] d3
    by (simp add: store_u64_def)
  moreover have "drop (off + 128) d4 = data b"
    using d4 len l1 l2 l3 fits by (auto simp: write_bytes_Some_iff)
  ultimately have "buffer_view ?s (buffer_handle_at (Ptr a off)) = Some b"
    using fits l1 l2 l3 l4
    by (simp add: buffer_view_def buffer_handle_at_def BUFFER_HEADER_SIZE_ALIGNED_def
        object_bytes_def load_u64_drop)
  then show ?thesis
    using that [OF put] l1 l2 l3 l4 by (simp add: object_bytes_def)
qed

lemma buffer_view_length:
  assumes "buffer_view s (buffer_handle_at (Ptr a off)) = Some b" and "object_bytes s a = Some d"
  shows "length (data b) = length d - (off + 128)"
  using assms
  by (auto simp: buffer_view_def buffer_handle_at_def BUFFER_HEADER_SIZE_ALIGNED_def bind_eq_Some_conv)

text \<open>An operation through one handle is seen through every handle on the same memory.\<close>

lemma on_buffer_view:
  assumes p: "buffer_object s p = Some (buffer_handle_at (Ptr a off))"
    and d: "object_bytes s a = Some d" "off + 128 \<le> length d"
    and v: "buffer_view s (buffer_handle_at (Ptr a off)) = Some b"
    and f: "f (Some b) = Done (r, Some b')" and len: "length (data b') = length (data b)"
  obtains s' where "on_buffer p f s = Done (r, s')"
    and "buffer_view s' (buffer_handle_at (Ptr a off)) = Some b'"
    and "\<And>q h. buffer_object s q = Some h \<Longrightarrow> buffer_object s' q = Some h"
    and "\<exists>d'. object_bytes s' a = Some d' \<and> length d' = length d"
proof -
  have "length (data b') = length d - (off + 128)"
    using buffer_view_length [OF v d(1)] len by simp
  then obtain s' where put: "buffer_put (buffer_handle_at (Ptr a off)) b' s = Some s'"
    and v': "buffer_view s' (buffer_handle_at (Ptr a off)) = Some b'"
    and other: "\<And>c. c \<noteq> a \<Longrightarrow> objects s' c = objects s c"
    and d': "\<exists>d'. object_bytes s' a = Some d' \<and> length d' = length d"
    using buffer_view_put [OF d(1) _ d(2)] by metis
  have "p \<noteq> NULL"
    using p by (auto simp: buffer_object_Some_iff)
  then have "on_buffer p f s = Done (r, s')"
    using p v f put by (simp add: on_buffer_def)
  moreover have "buffer_object s' q = Some h" if q: "buffer_object s q = Some h" for q h
  proof -
    obtain c where c: "q = Ptr c 0" "objects s c = Some (Buffer_Obj h)"
      using q by (auto simp: buffer_object_Some_iff)
    then have "c \<noteq> a"
      using d(1) by (auto simp: object_bytes_def)
    then show ?thesis
      using other [of c] c by (simp add: buffer_object_Some_iff)
  qed
  ultimately show ?thesis
    using that v' d' by blast
qed

section \<open>Creating and attaching\<close>

lemma store_ok_malloc:
  assumes "store_ok s" and "object_bytes s a = Some d"
  shows "object_bytes (s\<lparr>objects := (objects s)(fresh s \<mapsto> obj), fresh := n, script := t\<rparr>) a = Some d"
    and "a \<noteq> fresh s"
  using assms store_ok_fresh [OF assms(1)] by (auto simp: object_bytes_def)

lemma create_size_checks:
  assumes "unat n \<le> 128 + 9223372036854775808"
  shows "ipc_buffer_create (Ptr a off) n s =
    (if \<exists>k. unat n = 128 + 2 ^ k
     then (case malloc (Buffer_Obj (buffer_handle_at (Ptr a off))) s of
             (NULL, s) \<Rightarrow> Done (result_error_body IPC_ERR_SYSTEM
                ''system error: buffer allocation failed''
                \<lparr>bce_requested_size = n, bce_min_size = 128, bce_sys_errno = errno s\<rparr>, s)
           | (buffer, s) \<Rightarrow>
               access (do {
                   s \<leftarrow> store_at (ptr_add (Ptr a off) 8) (le_bytes (n - 128)) s;
                   s \<leftarrow> store_at (Ptr a off) (le_bytes 0) s;
                   store_at (ptr_add (Ptr a off) 64) (le_bytes 0) s
                 }) (\<lambda>s. Done (result_ok IPC_OK buffer, s)))
     else Done (result_error_body IPC_ERR_INVALID_ARGUMENT
        (if n < 128 then ''invalid argument: buffer size too small'' else ''size must be pover of 2'')
        \<lparr>bce_requested_size = n, bce_min_size = 128, bce_sys_errno = 0\<rparr>, s))"
proof (cases "n < 128")
  case True
  then have "\<not> (\<exists>k. unat n = 128 + 2 ^ k)"
    by (auto simp: word_less_nat_alt)
  then show ?thesis
    using True by (simp add: ipc_buffer_create_def BUFFER_HEADER_SIZE_ALIGNED_def)
next
  case False
  then have u: "unat (n - 128) = unat n - 128"
    using unat_diff_le [of 128 n] by (simp add: word_less_nat_alt)
  have "unat n - 128 = 2 ^ k \<longleftrightarrow> unat n = 128 + 2 ^ k" for k
    using False by (auto simp: word_less_nat_alt)
  then have "is_power_of_2 (n - 128) = Some (\<exists>k. unat n = 128 + 2 ^ k)"
    using is_power_of_2_iff [of "n - 128"] u assms by simp
  then show ?thesis
    using False
    by (simp add: ipc_buffer_create_def BUFFER_HEADER_SIZE_ALIGNED_def split: prod.split ptr.split)
qed

text \<open>What a successful creation leaves, for the statements below and for the channel.\<close>

definition created :: "ptr \<Rightarrow> u64 \<Rightarrow> store \<Rightarrow> store \<Rightarrow> bool" where
  "created mem n s s' \<longleftrightarrow>
     buffer_object s' (Ptr (fresh s) 0) = Some (buffer_handle_at mem) \<and>
     fresh s' = Suc (fresh s) \<and> dom (objects s') = insert (fresh s) (dom (objects s)) \<and>
     script s' = tl (script s) \<and>
     (\<exists>b. buffer_view s' (buffer_handle_at mem) = Some b \<and> buffer_inv b \<and> messages b = [] \<and>
        entries b = [] \<and> capacity b = unat n - 128)"

lemma created_store_ok: "created mem n s s' \<Longrightarrow> store_ok s \<Longrightarrow> store_ok s'"
  by (auto simp: created_def store_ok_dom)

lemma create_succeeds:
  assumes ok: "store_ok s" and d: "object_bytes s a = Some d" and room: "off + unat n \<le> length d"
    and n: "unat n = 128 + 2 ^ k" and m: "\<not> malloc_fails s"
  obtains s' where "ipc_buffer_create (Ptr a off) n s = Done (result_ok IPC_OK (Ptr (fresh s) 0), s')"
    and "created (Ptr a off) n s s'"
    and "\<And>c. c \<noteq> a \<Longrightarrow> c \<noteq> fresh s \<Longrightarrow> objects s' c = objects s c"
proof -
  let ?s = "s\<lparr>objects := (objects s)(fresh s \<mapsto> Buffer_Obj (buffer_handle_at (Ptr a off))),
      fresh := Suc (fresh s), script := tl (script s)\<rparr>"
  have k: "k < 64"
    using n unat_lt_two64 [of n] by (intro pow2_less_two64) simp
  note le = pow2_le_2p63 [OF k]
  have u: "unat (n - 128) = 2 ^ k"
    using unat_diff_le [of 128 n] n by simp
  have malloc: "malloc (Buffer_Obj (buffer_handle_at (Ptr a off))) s = (Ptr (fresh s) 0, ?s)"
    using m by (simp add: malloc_def malloc_fails_def)
  note d' = store_ok_malloc [OF ok d]
  have room': "off + 128 \<le> length d"
    using room n by simp
  obtain s' where st: "do {
      s \<leftarrow> store_at (ptr_add (Ptr a off) 8) (le_bytes (n - 128)) ?s;
      s \<leftarrow> store_at (Ptr a off) (le_bytes 0) s;
      store_at (ptr_add (Ptr a off) 64) (le_bytes 0) s } = Some s'"
    and view: "buffer_view s' (buffer_handle_at (Ptr a off)) =
      Some \<lparr>header = \<lparr>head = 0, data_size = n - 128, tail = 0\<rparr>, data = drop (off + 128) d\<rparr>"
    and frame: "\<And>c. c \<noteq> a \<Longrightarrow> objects s' c = objects ?s c" "fresh s' = fresh ?s"
      "dom (objects s') = dom (objects ?s)" and scr: "script s' = script ?s"
    by (rule create_stores [OF d'(1) room']) blast
  have "is_power_of_2 (n - 128) = Some True"
    using is_power_of_2_iff [of "n - 128"] u le by auto
  moreover have "unat (n - 128) \<le> length (drop (off + 128) d)"
    using u n room by simp
  ultimately have b: "ring \<lparr>header = \<lparr>head = 0, data_size = n - 128, tail = 0\<rparr>,
      data = drop (off + 128) d\<rparr> []"
    by (simp add: ring_def capacity_def ring_pos_def)
  have "created (Ptr a off) n s s'"
    unfolding created_def view using frame scr d'(2) b u n fresh_ring ring_entries [OF b] ring_messages [OF b]
    by (auto simp: buffer_object_Some_iff buffer_inv_def ring_ok_iff unlocked_def is_locked_iff
        capacity_def)
  moreover have "ipc_buffer_create (Ptr a off) n s = Done (result_ok IPC_OK (Ptr (fresh s) 0), s')"
    using create_size_checks [of n a off s] n le malloc st by auto
  ultimately show ?thesis
    using that frame(1) by simp
qed

text \<open>
  C18. \<open>ipc_buffer_create\<close> on memory of \<open>size\<close> bytes: unless \<open>size\<close> is the 128 bytes of the header
  plus a power of two it returns \<open>IPC_ERR_INVALID_ARGUMENT\<close> and touches nothing; where \<open>malloc\<close>
  fails it returns \<open>IPC_ERR_SYSTEM\<close> and touches no object; otherwise it returns a new handle, the
  only new object, through which an empty well-formed buffer of \<open>size - 128\<close> bytes is seen,
  whatever the memory held before.
\<close>

theorem buffer_create_on_every_branch:
  assumes "store_ok s" and "object_bytes s a = Some d" and "off + unat n \<le> length d"
    and "unat n \<le> 128 + 9223372036854775808"
  shows "\<exists>r s'. ipc_buffer_create (Ptr a off) n s = Done (r, s') \<and>
    (if \<not> (\<exists>k. unat n = 128 + 2 ^ k) then ipc_status r = IPC_ERR_INVALID_ARGUMENT \<and> s' = s
     else if malloc_fails s then ipc_status r = IPC_ERR_SYSTEM \<and> objects s' = objects s
     else r = result_ok IPC_OK (Ptr (fresh s) 0) \<and> created (Ptr a off) n s s')"
proof (cases "\<exists>k. unat n = 128 + 2 ^ k")
  case False
  then show ?thesis
    using create_size_checks [OF assms(4), of a off s] by auto
next
  case True
  then obtain k where k: "unat n = 128 + 2 ^ k" ..
  show ?thesis
  proof (cases "malloc_fails s")
    case True
    then show ?thesis
      using create_size_checks [OF assms(4), of a off s] k by (auto simp: malloc_def)
  next
    case False
    show ?thesis
      using create_succeeds [OF assms(1-3) k False] k False by metis
  qed
qed

definition sample_store :: "bool list \<Rightarrow> store" where
  "sample_store scr =
     \<lparr>objects = [0 \<mapsto> Bytes (replicate 256 255)], fresh = 1, script = scr, errno = 0\<rparr>"

lemma sample_store_ok:
  "store_ok (sample_store scr)" "object_bytes (sample_store scr) 0 = Some (replicate 256 255)"
  "fresh (sample_store scr) = 1" "malloc_fails (sample_store scr) \<longleftrightarrow> scr \<noteq> [] \<and> hd scr"
  "script (sample_store scr) = scr"
  by (auto simp: store_ok_def sample_store_def object_bytes_def malloc_fails_def)

lemma size_256: "\<exists>k. (256 :: nat) = 128 + 2 ^ k"
  by (rule exI [of _ 7]) simp

theorem buffer_create_on_every_branch_witness:
  "\<exists>s'. ipc_buffer_create (Ptr 0 0) 256 (sample_store []) = Done (result_ok IPC_OK (Ptr 1 0), s') \<and>
    created (Ptr 0 0) 256 (sample_store []) s'"
  using buffer_create_on_every_branch [of "sample_store []" 0 "replicate 256 255" 0 256] size_256
  by (auto simp: sample_store_ok split: if_splits)

text \<open>
  For a size above \<open>2\<^sup>6\<^sup>3 + 128\<close> the power-of-two test never ends, so neither does
  \<open>ipc_buffer_create\<close>; with a null pointer it returns \<open>IPC_ERR_INVALID_ARGUMENT\<close> for every size.
\<close>

theorem buffer_create_extremes:
  "ipc_buffer_create NULL n s = Done (result_error_body IPC_ERR_INVALID_ARGUMENT
      ''invalid argument: mem is NULL''
      \<lparr>bce_requested_size = n, bce_min_size = 128, bce_sys_errno = 0\<rparr>, s) \<and>
   (if 128 + 9223372036854775808 < unat n then ipc_buffer_create (Ptr a off) n s = Timeout
    else ipc_buffer_create (Ptr a off) n s \<noteq> Timeout)"
proof (cases "128 + 9223372036854775808 < unat n")
  case True
  then have "unat (n - 128) = unat n - 128"
    using unat_diff_le [of 128 n] by simp
  then have "is_power_of_2 (n - 128) = None"
    using True by (intro is_power_of_2_diverges) simp
  then show ?thesis
    using True
    by (simp add: ipc_buffer_create_def BUFFER_HEADER_SIZE_ALIGNED_def word_less_nat_alt)
next
  case False
  then have "unat n \<le> 128 + 9223372036854775808"
    by simp
  from create_size_checks [OF this, of a off s] have "ipc_buffer_create (Ptr a off) n s \<noteq> Timeout"
    by (auto simp: access_eq_Timeout_iff split: prod.splits ptr.splits)
  then show ?thesis
    using False by (simp add: ipc_buffer_create_def BUFFER_HEADER_SIZE_ALIGNED_def)
qed

text \<open>
  C19. \<open>ipc_buffer_suggest_size\<close> proposes a size that \<open>ipc_buffer_create\<close> accepts and whose data
  area has at least the desired capacity, for every capacity up to \<open>2\<^sup>6\<^sup>3\<close>; it never ends for
  larger ones, and for the last 128 values the sum overflows and the minimum size comes back.
\<close>

theorem suggested_size_is_accepted:
  "case ipc_buffer_suggest_size c of
     None \<Rightarrow> 9223372036854775808 < unat c \<and> unat c + 128 < two64
   | Some n \<Rightarrow>
       (\<exists>k. unat n = 128 + 2 ^ k) \<and>
       (unat c \<le> 9223372036854775808 \<and> unat c \<le> unat n - 128 \<or>
        two64 \<le> unat c + 128 \<and> n = 136)"
proof -
  have c: "ipc_buffer_suggest_size c =
      (if (unat c + 128) mod two64 < 136 then Some 136
       else map_option (\<lambda>p. p + 128) (find_next_power_of_2 c))"
    by (simp add: ipc_buffer_suggest_size_def ipc_buffer_get_min_size_def
        ipc_buffer_get_memory_overhead_def BUFFER_HEADER_SIZE_ALIGNED_def IPC_DATA_ALIGN_def
        word_less_nat_alt unat_add_two64)
  have e136: "\<exists>k. (136 :: nat) = 128 + 2 ^ k"
    by (rule exI [of _ 3]) simp
  consider (over) "two64 \<le> unat c + 128" | (small) "unat c < 8"
    | (mid) "8 \<le> unat c" "unat c + 128 < two64"
    by linarith
  then show ?thesis
  proof cases
    case over
    then have "(unat c + 128) mod two64 < 128"
      using unat_lt_two64 [of c] by (simp add: le_mod_geq)
    then show ?thesis
      using over e136 by (simp add: c)
  next
    case small
    then show ?thesis
      using e136 by (simp add: c)
  next
    case mid
    then have "ipc_buffer_suggest_size c = map_option (\<lambda>p. p + 128) (find_next_power_of_2 c)"
      by (simp add: c)
    then show ?thesis
      using mid by (cases rule: next_power_cases [of c])
        (auto simp: unat_add_two64 dest!: pow2_le_2p63)
  qed
qed

section \<open>Two handles on the same memory\<close>

lemma buffer_view_cong:
  "object_bytes s' a = object_bytes s a \<Longrightarrow>
   buffer_view s' (buffer_handle_at (Ptr a off)) = buffer_view s (buffer_handle_at (Ptr a off))"
  by (simp add: buffer_view_def buffer_handle_at_def)

lemma buffer_view_bounds:
  assumes "buffer_view s (buffer_handle_at (Ptr a off)) = Some b" and "ring_ok b"
  obtains d where "object_bytes s a = Some d" and "off + 128 \<le> length d"
proof -
  obtain d where d: "object_bytes s a = Some d"
    using assms(1) by (auto simp: buffer_view_def buffer_handle_at_def bind_eq_Some_conv)
  have r: "ring b (entries b)"
    using assms(2) by (simp add: ring_ok_def)
  then obtain k where "capacity b = 2 ^ k"
    by (rule ring_capacity)
  then have "0 < capacity b" and "capacity b \<le> length (data b)"
    using r by (simp_all add: ring_def)
  then show ?thesis
    using buffer_view_length [OF assms(1) d] that d by simp
qed

definition write_op :: "u8 list \<Rightarrow> IpcBuffer option \<Rightarrow> (IpcBufferWriteResult \<times> IpcBuffer option) run" where
  "write_op m b = ipc_buffer_write 2 b (Some m) (word_of_nat (length m))"

definition read_op :: "nat \<Rightarrow> IpcEntry \<Rightarrow> IpcBuffer option \<Rightarrow>
    ((IpcBufferReadResult \<times> IpcEntry option) \<times> IpcBuffer option) run" where
  "read_op fuel entry b =
     bind_run (ipc_buffer_read fuel b (Some entry)) (\<lambda>(r, e, b). Done ((r, e), b))"

text \<open>A view of a well-formed, unlocked buffer, kept by an operation that keeps the data's length.\<close>

lemma on_buffer_inv:
  assumes p: "buffer_object s p = Some (buffer_handle_at (Ptr a off))"
    and v: "buffer_view s (buffer_handle_at (Ptr a off)) = Some b" and inv: "buffer_inv b"
    and f: "f (Some b) = Done (r, Some b')" and len: "length (data b') = length (data b)"
  obtains s' where "on_buffer p f s = Done (r, s')"
    and "buffer_view s' (buffer_handle_at (Ptr a off)) = Some b'"
    and "\<And>q h. buffer_object s q = Some h \<Longrightarrow> buffer_object s' q = Some h"
proof -
  have "ring_ok b"
    using inv by (simp add: buffer_inv_def)
  with v obtain d where d: "object_bytes s a = Some d" "off + 128 \<le> length d"
    by (rule buffer_view_bounds)
  show ?thesis
    by (rule on_buffer_view [where f = f, OF p d v f len]) (use that in blast)
qed

lemma write_then_read:
  assumes p: "buffer_object s p = Some (buffer_handle_at (Ptr a off))"
    and q: "buffer_object s q = Some (buffer_handle_at (Ptr a off))"
    and v: "buffer_view s (buffer_handle_at (Ptr a off)) = Some b"
    and inv: "buffer_inv b" and empty: "messages b = []"
    and m: "valid_bytes m" "write_fits b (word_of_nat (length m))"
    and own: "own_entry entry buf" "length m \<le> unat (entry_len entry)" and fuel: "capacity b < fuel"
  shows "\<exists>r s1 r' entry' s2. on_buffer p (write_op m) s = Done (r, s1) \<and> ipc_status r = IPC_OK \<and>
    on_buffer q (read_op fuel entry) s1 = Done ((r', Some entry'), s2) \<and> ipc_status r' = IPC_OK \<and>
    payload entry' = Own (m @ drop (length m) buf) \<and> unat (entry_len entry') = length m"
proof -
  let ?h = "buffer_handle_at (Ptr a off)"
  have fits: "write_fits b (word_of_nat (length m))"
    using m(2) .
  obtain es where es: "ring b es" "\<not> is_locked (tail (header b))" and u: "unlocked b"
    using inv by (rule buffer_invE)
  from ipc_buffer_write_correct [OF es valid_bytes_message [OF m(1)], of 2] fits empty obtain r b1 where
    w: "write_op m (Some b) = Done (r, Some b1)" and ok: "ring_ok b1" and fr: "same_frame b b1"
    and u1: "\<not> is_locked (tail (header b1))" and r: "ipc_status r = IPC_OK" "messages b1 = [m]"
    by (auto simp: write_op_def ring_ok_iff valid_bytes_length [OF m(1)] simp del: ipc_buffer_write.simps)
  have len1: "length (data b1) = length (data b)"
    using fr by (simp add: same_frame_def)
  obtain s1 where s1: "on_buffer p (write_op m) s = Done (r, s1)" "buffer_view s1 ?h = Some b1"
    and keep: "\<And>q h. buffer_object s q = Some h \<Longrightarrow> buffer_object s1 q = Some h"
    by (rule on_buffer_inv [where f = "write_op m", OF p v inv w len1]) blast
  have inv1: "buffer_inv b1"
    using ok same_frame_unlocked [OF fr u u1] by (simp add: buffer_inv_def)
  then obtain es1 where es1: "ring b1 es1" and u1: "unlocked b1"
    by (rule buffer_invE)
  have "length es1 < fuel"
    using ring_length_le [OF es1] fuel same_frame_capacity [OF fr] by simp
  from ipc_buffer_read_correct [OF es1 u1 own(1) this] own(2) r(2) obtain r' entry' b2 where
    rd: "read_op fuel entry (Some b1) = Done ((r', Some entry'), Some b2)" and cf: "consumer_frame b1 b2"
    and res: "ipc_status r' = IPC_OK" "payload entry' = Own (m @ drop (length m) buf)"
      "unat (entry_len entry') = length m"
    by (auto simp: read_op_def simp del: ipc_buffer_read.simps)
  have "length (data b2) = length (data b1)"
    using cf by (simp add: consumer_frame_def)
  from on_buffer_inv [where f = "read_op fuel entry", OF keep [OF q] s1(2) inv1 rd this] obtain s2 where
    "on_buffer q (read_op fuel entry) s1 = Done ((r', Some entry'), s2)"
    by blast
  then show ?thesis
    using s1 r res by blast
qed

lemma attach_succeeds:
  assumes "\<not> malloc_fails s"
  shows "ipc_buffer_attach (Ptr a off) s = (result_ok IPC_OK (Ptr (fresh s) 0),
    s\<lparr>objects := (objects s)(fresh s \<mapsto> Buffer_Obj (buffer_handle_at (Ptr a off))),
      fresh := Suc (fresh s), script := tl (script s)\<rparr>)"
  using assms by (simp add: ipc_buffer_attach_def malloc_def)

lemma empty_write_fits:
  "entries b = [] \<Longrightarrow> 2 * (unat (full_entry_size n) + 24) \<le> capacity b \<Longrightarrow> write_fits b n"
  by (simp add: write_fits_def Let_def)

text \<open>
  C13. Two handles share one buffer: after \<open>ipc_buffer_create\<close> on some memory and
  \<open>ipc_buffer_attach\<close> on the same memory, which returns a second handle and leaves the contents
  alone, a message written through the first handle is read through the second.
\<close>

theorem create_attach_transfer:
  assumes "store_ok s" and "script s = []" and "object_bytes s a = Some d"
    and "off + unat n \<le> length d" and "unat n = 128 + 2 ^ k"
    and "valid_bytes m" and "2 * (unat (full_entry_size (word_of_nat (length m))) + 24) \<le> 2 ^ k"
    and "own_entry entry buf" and "length m \<le> unat (entry_len entry)" and "2 ^ k < fuel"
  shows "\<exists>p q s1 s2 s3 s4 r r' entry'.
    ipc_buffer_create (Ptr a off) n s = Done (result_ok IPC_OK p, s1) \<and>
    ipc_buffer_attach (Ptr a off) s1 = (result_ok IPC_OK q, s2) \<and> p \<noteq> q \<and>
    on_buffer p (write_op m) s2 = Done (r, s3) \<and> ipc_status r = IPC_OK \<and>
    on_buffer q (read_op fuel entry) s3 = Done ((r', Some entry'), s4) \<and> ipc_status r' = IPC_OK \<and>
    payload entry' = Own (m @ drop (length m) buf) \<and> unat (entry_len entry') = length m"
proof -
  let ?h = "buffer_handle_at (Ptr a off)" and ?p = "Ptr (fresh s) 0"
  have "\<not> malloc_fails s"
    using assms(2) by (simp add: malloc_fails_def)
  with assms(1,3-5) obtain s1 where create: "ipc_buffer_create (Ptr a off) n s = Done (result_ok IPC_OK ?p, s1)"
    and cr: "created (Ptr a off) n s s1"
    by (rule create_succeeds)
  obtain b where b: "buffer_view s1 ?h = Some b" "buffer_inv b" "messages b = []" "entries b = []"
      "capacity b = 2 ^ k"
    using cr assms(5) by (auto simp: created_def)
  let ?q = "Ptr (fresh s1) 0"
  have "\<not> malloc_fails s1"
    using cr assms(2) by (simp add: malloc_fails_def created_def)
  from attach_succeeds [OF this, of a off] obtain s2 where
    attach: "ipc_buffer_attach (Ptr a off) s1 = (result_ok IPC_OK ?q, s2)"
    and s2: "objects s2 = (objects s1)(fresh s1 \<mapsto> Buffer_Obj ?h)"
    by simp
  have fr: "fresh s1 = Suc (fresh s)" and p1: "objects s1 (fresh s) = Some (Buffer_Obj ?h)"
    using cr by (simp_all add: created_def buffer_object_Some_iff)
  obtain d1 where "object_bytes s1 a = Some d1"
    using b(1) by (auto simp: buffer_view_def buffer_handle_at_def bind_eq_Some_conv)
  moreover have "objects s1 (fresh s1) = None"
    using created_store_ok [OF cr assms(1)] by (rule store_ok_fresh)
  ultimately have "object_bytes s2 a = object_bytes s1 a"
    by (auto simp: s2 object_bytes_def)
  then have v: "buffer_view s2 ?h = Some b"
    using buffer_view_cong [of s2 a s1 off] b(1) by simp
  have pq: "buffer_object s2 ?p = Some ?h" "buffer_object s2 ?q = Some ?h"
    using p1 fr by (simp_all add: buffer_object_Some_iff s2)
  have fits: "write_fits b (word_of_nat (length m))"
    using assms(7) b(4,5) by (intro empty_write_fits) simp_all
  have "capacity b < fuel"
    using assms(10) b(5) by simp
  from write_then_read [OF pq v b(2,3) assms(6) fits assms(8,9) this]
  show ?thesis
    using create attach fr by fastforce
qed

theorem create_attach_transfer_witness:
  "\<exists>p q s1 s2 s3 s4 r r' entry'.
    ipc_buffer_create (Ptr 0 0) 256 (sample_store []) = Done (result_ok IPC_OK p, s1) \<and>
    ipc_buffer_attach (Ptr 0 0) s1 = (result_ok IPC_OK q, s2) \<and> p \<noteq> q \<and>
    on_buffer p (write_op [7, 8]) s2 = Done (r, s3) \<and> ipc_status r = IPC_OK \<and>
    on_buffer q (read_op 200 \<lparr>entry_offset = 0, payload = Own [0, 0], entry_len = 2\<rparr>) s3 =
      Done ((r', Some entry'), s4) \<and> ipc_status r' = IPC_OK \<and>
    payload entry' = Own [7, 8]"
  using create_attach_transfer [of "sample_store []" 0 "replicate 256 255" 0 256 7 "[7, 8]"
      "\<lparr>entry_offset = 0, payload = Own [0, 0], entry_len = 2\<rparr>" "[0, 0]" 200]
  by (simp add: sample_store_ok valid_bytes_def own_entry_def full_entry_size_def
      sizeof_EntryHeader_def IPC_DATA_ALIGN_def unat_ALIGN_UP_8) blast

end
