(* ===== verification/Ipc_Futex.thy ===== *)
theory Ipc_Futex
  imports Ipc_Utils
begin

text \<open>
  \<^verbatim>\<open>core/src/ipc_futex.c\<close>: waiting on and waking the waiters of a 32-bit word. The system calls
  are not part of the repository, so they are parameters: a call is a function from its
  arguments to the value returned and the value left in \<open>errno\<close>. Both branches of the \<open>#ifdef\<close>
  are modelled, with the error numbers of the two systems.
\<close>

datatype platform = Linux | Apple

fun EAGAIN :: "platform \<Rightarrow> u32" where
  "EAGAIN Linux = 11"
| "EAGAIN Apple = 35"

definition EWOULDBLOCK :: "platform \<Rightarrow> u32" where
  "EWOULDBLOCK p = EAGAIN p"

definition EINTR :: u32 where
  "EINTR = 4"

definition ENOENT :: u32 where
  "ENOENT = 2"

fun ETIMEDOUT :: "platform \<Rightarrow> u32" where
  "ETIMEDOUT Linux = 110"
| "ETIMEDOUT Apple = 60"

text \<open>
  \<open>syscall(SYS_futex, addr, FUTEX_WAIT, expected, timeout)\<close> and
  \<open>__ulock_wait(UL_COMPARE_AND_WAIT, addr, expected, timeout)\<close>, where \<open>value\<close> is the word at
  \<open>addr\<close>.
\<close>

type_synonym futex_syscall = "u32 \<Rightarrow> u32 \<Rightarrow> timespec \<Rightarrow> u32 \<times> u32"
type_synonym ulock_syscall = "u32 \<Rightarrow> u32 \<Rightarrow> u32 \<Rightarrow> u32 \<times> u32"

definition ipc_futex_wait_linux :: "futex_syscall \<Rightarrow> u32 \<Rightarrow> u32 \<Rightarrow> timespec \<Rightarrow> u32 \<times> u32" where
  "ipc_futex_wait_linux sys value expected timeout =
     (let (res, errno) = sys value expected timeout
      in if res \<noteq> 0 then
           if errno = EAGAIN Linux \<or> errno = EINTR then (0, errno) else (errno, errno)
         else (res, errno))"

text \<open>The timeout in microseconds, cut to the 32 bits of the parameter.\<close>

definition ulock_timeout :: "timespec \<Rightarrow> u32" where
  "ulock_timeout t = ucast (tv_sec t * 1000000 + tv_nsec t div 1000)"

definition ipc_futex_wait_apple :: "ulock_syscall \<Rightarrow> u32 \<Rightarrow> u32 \<Rightarrow> timespec \<Rightarrow> u32 \<times> u32" where
  "ipc_futex_wait_apple sys value expected timeout =
     (let (res, errno) = sys value expected (ulock_timeout timeout)
      in if res \<noteq> 0 then
           if errno = EAGAIN Apple \<or> errno = EWOULDBLOCK Apple \<or> errno = EINTR then (0, errno)
           else (errno, errno)
         else (res, errno))"

text \<open>Waking: the argument is the number of waiters to wake, or the operation.\<close>

definition INT_MAX :: u32 where
  "INT_MAX = 0x7FFFFFFF"

definition ipc_futex_wake_one_linux :: "(u32 \<Rightarrow> u32 \<times> u32) \<Rightarrow> u32 \<times> u32" where
  "ipc_futex_wake_one_linux sys = sys 1"

definition ipc_futex_wake_all_linux :: "(u32 \<Rightarrow> u32 \<times> u32) \<Rightarrow> u32 \<times> u32" where
  "ipc_futex_wake_all_linux sys = sys INT_MAX"

definition UL_COMPARE_AND_WAIT :: u32 where
  "UL_COMPARE_AND_WAIT = 1"

definition ULF_WAKE_ALL :: u32 where
  "ULF_WAKE_ALL = 0x100"

definition ipc_futex_wake_one_apple :: "(u32 \<Rightarrow> u32 \<times> u32) \<Rightarrow> u32 \<times> u32" where
  "ipc_futex_wake_one_apple sys =
     (let (res, errno) = sys UL_COMPARE_AND_WAIT
      in if res \<noteq> 0 \<and> errno = ENOENT then (0, errno) else (res, errno))"

definition ipc_futex_wake_all_apple :: "(u32 \<Rightarrow> u32 \<times> u32) \<Rightarrow> u32 \<times> u32" where
  "ipc_futex_wake_all_apple sys =
     (let (res, errno) = sys (or UL_COMPARE_AND_WAIT ULF_WAKE_ALL)
      in if res \<noteq> 0 \<and> errno = ENOENT then (0, errno) else (res, errno))"

text \<open>
  On both systems a wait returns 0 when the word had changed or a signal arrived, the value
  0 of a plain success, and the error number itself for everything else, \<open>ETIMEDOUT\<close> included:
  the channel's loop never mistakes a spurious return for a failure.
\<close>

lemma futex_wait_result:
  "fst (ipc_futex_wait_linux sys value expected timeout) =
     (case sys value expected timeout of (res, errno) \<Rightarrow>
        if res = 0 \<or> errno = EAGAIN Linux \<or> errno = EINTR then 0 else errno) \<and>
   fst (ipc_futex_wait_apple usys value expected timeout) =
     (case usys value expected (ulock_timeout timeout) of (res, errno) \<Rightarrow>
        if res = 0 \<or> errno = EAGAIN Apple \<or> errno = EINTR then 0 else errno)"
  by (auto simp: ipc_futex_wait_linux_def ipc_futex_wait_apple_def EWOULDBLOCK_def Let_def
      split: prod.splits)



end
