(* ===== verification/Ipc_Channel.thy ===== *)
theory Ipc_Channel
  imports Ipc_Buffer Ipc_Futex
begin

text \<open>
  \<^verbatim>\<open>core/src/ipc_channel.c\<close>: the channel, a ring buffer with a notification counter that readers
  sleep on. The state is the counter and the buffer behind the channel, together with what the
  calling thread does to the rest of the system: its heap blocks, \<open>errno\<close> and the wake-ups.

  Other threads and the operating system are a parameter, the record \<open>os\<close>. \<open>others t\<close> is what
  the other threads have done to the shared memory when this thread makes its \<open>t\<close>-th access to
  it: an operation of the ring buffer is one access, so other threads run between, not within,
  the operations of this one. The remaining fields are the answers of the C library and of the
  system at that access, and the indeterminate values that the code reads.
\<close>

section \<open>State\<close>

record IpcChannel =
  notify :: u32
  channel_buffer :: "IpcBuffer option"

record os =
  others :: "nat \<Rightarrow> IpcChannel \<Rightarrow> IpcChannel"
  platform :: platform
  sys_futex_wait :: "nat \<Rightarrow> futex_syscall"
  sys_ulock_wait :: "nat \<Rightarrow> ulock_syscall"
  sys_wake :: "nat \<Rightarrow> u32 \<Rightarrow> u32 \<times> u32"
  clock_gettime :: "nat \<Rightarrow> timespec + u32"
  mem_alloc :: "nat \<Rightarrow> nat \<Rightarrow> u8 list option"
  mem_realloc :: "nat \<Rightarrow> u8 list \<Rightarrow> nat \<Rightarrow> u8 list option"
  uninit_entry :: "nat \<Rightarrow> IpcEntry"
  uninit_detail :: string

text \<open>The pointer to the channel may be \<open>NULL\<close>: \<open>None\<close>.\<close>

record world =
  channel :: "IpcChannel option"
  tick :: nat
  live :: nat
  wakes :: nat
  last_errno :: u32

definition shared_access :: "os \<Rightarrow> world \<Rightarrow> world" where
  "shared_access os w =
     w\<lparr>channel := map_option (others os (tick w)) (channel w), tick := Suc (tick w)\<rparr>"

definition call_buffer :: "os \<Rightarrow> (IpcBuffer option \<Rightarrow> ('r \<times> IpcBuffer option) run) \<Rightarrow> world \<Rightarrow>
    ('r \<times> world) run" where
  "call_buffer os f w =
     (let w = shared_access os w
      in access (channel w) (\<lambda>c.
         bind_run (f (channel_buffer c)) (\<lambda>(r, b).
           Done (r, w\<lparr>channel := Some (c\<lparr>channel_buffer := b\<rparr>)\<rparr>))))"

definition with_entry :: "('r \<times> IpcEntry option \<times> IpcBuffer option) run \<Rightarrow>
    (('r \<times> IpcEntry option) \<times> IpcBuffer option) run" where
  "with_entry x = bind_run x (\<lambda>(r, e, b). Done ((r, e), b))"

text \<open>\<open>r.error.detail\<close> of a result that holds no error is indeterminate.\<close>

definition detail_of :: "os \<Rightarrow> ('t, 'e) ipc_result \<Rightarrow> string" where
  "detail_of os r = (case error_detail r of Some d \<Rightarrow> d | None \<Rightarrow> uninit_detail os)"

section \<open>Sizes\<close>

definition sizeof_IpcChannelHeader :: u64 where
  "sizeof_IpcChannelHeader = 4"

definition CHANNEL_HEADER_SIZE_ALIGNED :: u64 where
  "CHANNEL_HEADER_SIZE_ALIGNED = ALIGN_UP_BY_CACHE_LINE sizeof_IpcChannelHeader"

definition ipc_channel_get_memory_overhead :: u64 where
  "ipc_channel_get_memory_overhead = CHANNEL_HEADER_SIZE_ALIGNED + ipc_buffer_get_memory_overhead"

definition ipc_channel_get_min_size :: u64 where
  "ipc_channel_get_min_size = CHANNEL_HEADER_SIZE_ALIGNED + ipc_buffer_get_min_size"

definition ipc_channel_suggest_size :: "u64 \<Rightarrow> u64 option" where
  "ipc_channel_suggest_size desired_capacity =
     (let min_size = ipc_channel_get_min_size;
          overhead = ipc_channel_get_memory_overhead
      in if desired_capacity + overhead < min_size then Some min_size
         else map_option (\<lambda>p. p + overhead) (find_next_power_of_2 desired_capacity))"

section \<open>Notification\<close>

definition ipc_futex_wake_all :: "os \<Rightarrow> world \<Rightarrow> world" where
  "ipc_futex_wake_all os w =
     (let (_, e) = (case platform os of
            Linux \<Rightarrow> ipc_futex_wake_all_linux (sys_wake os (tick w))
          | Apple \<Rightarrow> ipc_futex_wake_all_apple (sys_wake os (tick w)))
      in w\<lparr>wakes := Suc (wakes w), last_errno := e, tick := Suc (tick w)\<rparr>)"

definition fetch_add_notify :: "os \<Rightarrow> world \<Rightarrow> world" where
  "fetch_add_notify os w =
     (let w = shared_access os w
      in w\<lparr>channel := map_option (\<lambda>c. c\<lparr>notify := notify c + 1\<rparr>) (channel w)\<rparr>)"

definition load_notify :: "os \<Rightarrow> world \<Rightarrow> (u32 \<times> world) run" where
  "load_notify os w =
     (let w = shared_access os w
      in access (channel w) (\<lambda>c. Done (notify c, w)))"

definition ipc_futex_wait :: "os \<Rightarrow> u32 \<Rightarrow> timespec \<Rightarrow> world \<Rightarrow> (u32 \<times> world) run" where
  "ipc_futex_wait os expected timeout w =
     (let w = shared_access os w
      in access (channel w) (\<lambda>c.
           let (res, e) = (case platform os of
                  Linux \<Rightarrow> ipc_futex_wait_linux (sys_futex_wait os (tick w)) (notify c) expected timeout
                | Apple \<Rightarrow> ipc_futex_wait_apple (sys_ulock_wait os (tick w)) (notify c) expected timeout)
           in Done (res, w\<lparr>last_errno := e\<rparr>)))"

section \<open>Heap blocks\<close>

fun free_payload :: "payload_ptr \<Rightarrow> world \<Rightarrow> world run" where
  "free_payload Null w = Done w"
| "free_payload (Own bytes) w = (if live w = 0 then Fault else Done (w\<lparr>live := live w - 1\<rparr>))"
| "free_payload (In_Buffer p) w = Fault"

definition OUT_OF_MEMORY :: u32 where
  "OUT_OF_MEMORY = 12"

text \<open>The destination with room for \<open>n\<close> bytes, or \<open>None\<close> where the allocation failed.\<close>

definition reserve_payload :: "os \<Rightarrow> u64 \<Rightarrow> IpcEntry \<Rightarrow> world \<Rightarrow> (IpcEntry option \<times> world) run" where
  "reserve_payload os n dest w =
     (let w' = w\<lparr>tick := Suc (tick w)\<rparr>
      in case payload dest of
           Null \<Rightarrow>
             (case mem_alloc os (tick w) (unat n) of
                None \<Rightarrow> Done (None, w'\<lparr>last_errno := OUT_OF_MEMORY\<rparr>)
              | Some bytes \<Rightarrow> Done (Some (dest\<lparr>payload := Own bytes, entry_len := n\<rparr>),
                                 w'\<lparr>live := Suc (live w)\<rparr>))
         | Own old \<Rightarrow>
             if entry_len dest < n then
               (case mem_realloc os (tick w) old (unat n) of
                  None \<Rightarrow> Done (None, w'\<lparr>last_errno := OUT_OF_MEMORY\<rparr>)
                | Some bytes \<Rightarrow> Done (Some (dest\<lparr>payload := Own bytes, entry_len := n\<rparr>), w'))
             else Done (Some dest, w)
         | In_Buffer p \<Rightarrow> if entry_len dest < n then Fault else Done (Some dest, w))"

section \<open>Write\<close>

record IpcChannelWriteError =
  cwe_offset :: u64
  cwe_requested_size :: u64
  cwe_available_contiguous :: u64
  cwe_buffer_size :: u64

type_synonym IpcChannelWriteResult = "(unit, IpcChannelWriteError) ipc_result"

definition ipc_channel_write :: "nat \<Rightarrow> os \<Rightarrow> u8 list option \<Rightarrow> u64 \<Rightarrow> world \<Rightarrow>
    (IpcChannelWriteResult \<times> world) run" where
  "ipc_channel_write fuel os src n w =
     (let error = \<lparr>cwe_offset = 0, cwe_requested_size = n, cwe_available_contiguous = 0,
                   cwe_buffer_size = 0\<rparr>
      in case channel w of
           None \<Rightarrow> Done (result_error_body IPC_ERR_INVALID_ARGUMENT
                     ''invalid argument: channel is NULL'' error, w)
         | Some c \<Rightarrow>
             if channel_buffer c = None then
               Done (result_error_body IPC_ERR_ILLEGAL_STATE
                 ''illegal state: channel->buffer is NULL'' error, w)
             else
               bind_run (call_buffer os (\<lambda>b. ipc_buffer_write fuel b src n) w) (\<lambda>(res, w).
                 if is_error res then
                   let w = (if ipc_status res = IPC_ERR_NO_SPACE_CONTIGUOUS
                            then ipc_futex_wake_all os (fetch_add_notify os w) else w);
                       error = (case union_error (content res) of
                           None \<Rightarrow> error
                         | Some e \<Rightarrow> (case body e of
                             None \<Rightarrow> error
                           | Some b \<Rightarrow> error\<lparr>cwe_offset := we_offset b,
                               cwe_requested_size := we_requested_size b,
                               cwe_available_contiguous := we_available_contiguous b,
                               cwe_buffer_size := we_buffer_size b\<rparr>))
                   in Done (result_error_body (ipc_status res) (detail_of os res) error, w)
                 else
                   Done (result_ok (ipc_status res) (),
                     ipc_futex_wake_all os (fetch_add_notify os w))))"

section \<open>Reading\<close>

record IpcChannelReadError =
  cre_offset :: u64
  cre_timeout_used :: timespec
  cre_sys_errno :: u32

type_synonym IpcChannelReadResult = "(unit, IpcChannelReadError) ipc_result"

definition is_retry_status :: "IpcStatus \<Rightarrow> bool" where
  "is_retry_status st \<longleftrightarrow> st = IPC_ERR_NOT_READY \<or> st = IPC_EMPTY \<or> st = IPC_ERR_CORRUPTED \<or>
     st = IPC_ERR_LOCKED"

definition is_error_status :: "IpcStatus \<Rightarrow> bool" where
  "is_error_status st \<longleftrightarrow> st \<noteq> IPC_OK \<and> \<not> is_retry_status st"

definition empty_entry :: IpcEntry where
  "empty_entry = \<lparr>entry_offset = 0, payload = Null, entry_len = 0\<rparr>"

definition no_read_error :: IpcChannelReadError where
  "no_read_error = \<lparr>cre_offset = 0, cre_timeout_used = \<lparr>tv_sec = 0, tv_nsec = 0\<rparr>, cre_sys_errno = 0\<rparr>"

definition peek_channel :: "nat \<Rightarrow> os \<Rightarrow> world \<Rightarrow>
    ((IpcBufferPeekResult \<times> IpcEntry option) \<times> world) run" where
  "peek_channel fuel os w =
     call_buffer os (\<lambda>b. with_entry (ipc_buffer_peek fuel b (Some (uninit_entry os (tick w))))) w"

text \<open>
  The loop of \<open>_try_read\<close>. The first number bounds its iterations: one more is made each time
  another consumer changes the oldest entry between the peek and the read.
\<close>

fun try_read_loop :: "nat \<Rightarrow> nat \<Rightarrow> os \<Rightarrow> IpcChannelReadError \<Rightarrow> IpcEntry \<Rightarrow> world \<Rightarrow>
    ((IpcChannelReadResult \<times> IpcEntry) \<times> world) run" where
  "try_read_loop 0 fuel os error dest w = Timeout"
| "try_read_loop (Suc n) fuel os error dest w =
     bind_run (peek_channel fuel os w) (\<lambda>((peek_result, peek_entry), w).
     access peek_entry (\<lambda>peek_entry.
       if is_error peek_result then
         Done ((result_error_body (ipc_status peek_result) (detail_of os peek_result)
                 (error\<lparr>cre_offset := entry_offset peek_entry\<rparr>), dest), w)
       else if ipc_status peek_result \<noteq> IPC_OK then
         Done ((result_ok (ipc_status peek_result) (), dest), w)
       else
         bind_run (reserve_payload os (entry_len peek_entry) dest w) (\<lambda>(reserved, w).
         case reserved of
           None \<Rightarrow> Done ((result_error_body IPC_ERR_SYSTEM ''system error: allocation failed''
                     (error\<lparr>cre_offset := entry_offset peek_entry,
                            cre_sys_errno := last_errno w\<rparr>), dest), w)
         | Some dest \<Rightarrow>
             bind_run (call_buffer os (\<lambda>b. with_entry (ipc_buffer_read fuel b (Some dest))) w)
               (\<lambda>((read_result, entry), w).
             access entry (\<lambda>dest.
               if is_error read_result then
                 if ipc_status read_result = IPC_ERR_TOO_SMALL then
                   try_read_loop n fuel os error dest w
                 else
                   Done ((result_error_body (ipc_status read_result) (detail_of os read_result)
                           (error\<lparr>cre_offset := entry_offset dest\<rparr>), dest), w)
               else Done ((result_ok (ipc_status read_result) (), dest), w))))))"

definition try_read :: "nat \<Rightarrow> nat \<Rightarrow> os \<Rightarrow> IpcEntry option \<Rightarrow> world \<Rightarrow>
    ((IpcChannelReadResult \<times> IpcEntry option) \<times> world) run" where
  "try_read n fuel os dest w =
     (let error = no_read_error
      in case channel w of
           None \<Rightarrow> Done ((result_error_body IPC_ERR_INVALID_ARGUMENT
                     ''invalid argument: channel is NULL'' error, dest), w)
         | Some c \<Rightarrow>
             if channel_buffer c = None then
               Done ((result_error_body IPC_ERR_ILLEGAL_STATE
                 ''illegal state: channel->buffer is NULL'' error, dest), w)
             else (case dest of
                 None \<Rightarrow> Done ((result_error_body IPC_ERR_INVALID_ARGUMENT
                           ''invalid argument: data is NULL'' error, None), w)
               | Some entry \<Rightarrow>
                   bind_run (try_read_loop n fuel os error entry w)
                     (\<lambda>((r, entry), w). Done ((r, Some entry), w))))"

record IpcChannelTryReadError =
  ctre_offset :: u64

type_synonym IpcChannelTryReadResult = "(unit, IpcChannelTryReadError) ipc_result"

definition ipc_channel_try_read :: "nat \<Rightarrow> nat \<Rightarrow> os \<Rightarrow> IpcEntry option \<Rightarrow> world \<Rightarrow>
    ((IpcChannelTryReadResult \<times> IpcEntry option) \<times> world) run" where
  "ipc_channel_try_read n fuel os dest w =
     (let error = \<lparr>ctre_offset = 0\<rparr>
      in case channel w of
           None \<Rightarrow> Done ((result_error_body IPC_ERR_INVALID_ARGUMENT
                     ''invalid argument: channel is NULL'' error, dest), w)
         | Some c \<Rightarrow>
             if channel_buffer c = None then
               Done ((result_error_body IPC_ERR_ILLEGAL_STATE
                 ''illegal state: channel->buffer is NULL'' error, dest), w)
             else (case dest of
                 None \<Rightarrow> Done ((result_error_body IPC_ERR_INVALID_ARGUMENT
                           ''invalid argument: dest is NULL'' error, None), w)
               | Some out \<Rightarrow>
                   bind_run (try_read n fuel os (Some empty_entry) w) (\<lambda>((r, entry), w).
                   access entry (\<lambda>entry.
                   bind_run (if ipc_status r = IPC_OK
                             then Done (out\<lparr>payload := payload entry, entry_len := entry_len entry,
                                            entry_offset := entry_offset entry\<rparr>, w)
                             else bind_run (free_payload (payload entry) w) (\<lambda>w. Done (out, w)))
                     (\<lambda>(out, w).
                       if is_error r then
                         access (error_body r) (\<lambda>e.
                           Done ((result_error_body (ipc_status r) (detail_of os r)
                                   (error\<lparr>ctre_offset := cre_offset e\<rparr>), Some out), w))
                       else Done ((result_ok (ipc_status r) (), Some out), w))))))"

text \<open>
  The second half of an iteration of \<open>ipc_channel_read\<close>, after a peek that has led to no message:
  \<open>Some\<close> of an error result, its memory freed, or \<open>None\<close> after a sleep.
\<close>

definition give_up :: "IpcStatus \<Rightarrow> string \<Rightarrow> IpcChannelReadError \<Rightarrow> IpcEntry \<Rightarrow> IpcEntry \<Rightarrow> world \<Rightarrow>
    (IpcChannelReadResult option \<times> world) run" where
  "give_up st msg error peek_entry read_entry w =
     bind_run (free_payload (payload read_entry) w) (\<lambda>w.
       Done (Some (result_error_body st msg (error\<lparr>cre_offset := entry_offset peek_entry\<rparr>)), w))"

definition read_wait :: "os \<Rightarrow> u64 \<Rightarrow> u64 \<Rightarrow> IpcChannelReadError \<Rightarrow> IpcBufferPeekResult \<Rightarrow> IpcEntry \<Rightarrow>
    IpcEntry \<Rightarrow> world \<Rightarrow> (IpcChannelReadResult option \<times> world) run" where
  "read_wait os start_ns timeout_ns error peek_result peek_entry read_entry w =
     (if \<not> is_retry_status (ipc_status peek_result) then
        give_up (ipc_status peek_result) (detail_of os peek_result) error peek_entry read_entry w
      else
        case clock_gettime os (tick w) of
          Inr e \<Rightarrow> give_up IPC_ERR_SYSTEM ''system error: clock_gettime failed''
                     (error\<lparr>cre_sys_errno := e\<rparr>) peek_entry read_entry
                     (w\<lparr>tick := Suc (tick w), last_errno := e\<rparr>)
        | Inl curr_time \<Rightarrow>
            let w = w\<lparr>tick := Suc (tick w)\<rparr>;
                curr_ns = ipc_timespec_to_nanos (Some curr_time);
                elapsed_ns = curr_ns - start_ns
            in if timeout_ns \<le> elapsed_ns then
                 give_up IPC_ERR_TIMEOUT ''timeout: read timed out'' error peek_entry read_entry w
               else
                 let remaining_ns = timeout_ns - elapsed_ns
                 in bind_run (load_notify os w) (\<lambda>(expected_notify, w).
                    bind_run (ipc_futex_wait os expected_notify (nanos_to_timespec remaining_ns) w)
                      (\<lambda>(wait_res, w).
                    if wait_res \<noteq> 0 \<and> wait_res \<noteq> ETIMEDOUT (platform os) then
                      give_up IPC_ERR_SYSTEM ''system error: futex wait failed''
                        (error\<lparr>cre_sys_errno := last_errno w\<rparr>) peek_entry read_entry w
                    else Done (None, w))))"

text \<open>The waiting loop of \<open>ipc_channel_read\<close>; the first number bounds its iterations.\<close>

fun read_loop :: "nat \<Rightarrow> nat \<Rightarrow> nat \<Rightarrow> os \<Rightarrow> u64 \<Rightarrow> u64 \<Rightarrow> IpcChannelReadError \<Rightarrow> IpcEntry \<Rightarrow>
    IpcEntry \<Rightarrow> world \<Rightarrow> ((IpcChannelReadResult \<times> IpcEntry) \<times> world) run" where
  "read_loop 0 n fuel os start_ns timeout_ns error read_entry dest w = Timeout"
| "read_loop (Suc k) n fuel os start_ns timeout_ns error read_entry dest w =
     bind_run (peek_channel fuel os w) (\<lambda>((peek_result, peek_entry), w).
     access peek_entry (\<lambda>peek_entry.
     let continue = (\<lambda>read_entry w.
           bind_run (read_wait os start_ns timeout_ns error peek_result peek_entry read_entry w)
             (\<lambda>(stop, w). case stop of
                Some r \<Rightarrow> Done ((r, dest), w)
              | None \<Rightarrow> read_loop k n fuel os start_ns timeout_ns error read_entry dest w))
     in if ipc_status peek_result = IPC_OK then
          bind_run (try_read n fuel os (Some read_entry) w) (\<lambda>((read_result, entry), w).
          access entry (\<lambda>read_entry.
            if is_error_status (ipc_status read_result) then
              bind_run (free_payload (payload read_entry) w) (\<lambda>w. Done ((read_result, dest), w))
            else if ipc_status read_result = IPC_OK then
              Done ((read_result, dest\<lparr>payload := payload read_entry,
                      entry_len := entry_len read_entry,
                      entry_offset := entry_offset read_entry\<rparr>), w)
            else continue read_entry w))
        else continue read_entry w))"

text \<open>
  \<open>tv_nsec\<close> and \<open>tv_sec\<close> are signed: a value with the top bit set is negative.
\<close>

definition is_negative :: "u64 \<Rightarrow> bool" where
  "is_negative x \<longleftrightarrow> bit x 63"

definition ipc_channel_read :: "nat \<Rightarrow> nat \<Rightarrow> nat \<Rightarrow> os \<Rightarrow> IpcEntry option \<Rightarrow> timespec option \<Rightarrow>
    world \<Rightarrow> ((IpcChannelReadResult \<times> IpcEntry option) \<times> world) run" where
  "ipc_channel_read k n fuel os dest timeout w =
     (let error = no_read_error
      in case channel w of
           None \<Rightarrow> Done ((result_error_body IPC_ERR_INVALID_ARGUMENT
                     ''invalid argument: channel is NULL'' error, dest), w)
         | Some c \<Rightarrow>
             if channel_buffer c = None then
               Done ((result_error_body IPC_ERR_ILLEGAL_STATE
                 ''illegal state: channel->buffer is NULL'' error, dest), w)
             else (case dest of
                 None \<Rightarrow> Done ((result_error_body IPC_ERR_INVALID_ARGUMENT
                           ''invalid argument: dest is NULL'' error, None), w)
               | Some out \<Rightarrow> (case timeout of
                   None \<Rightarrow> Done ((result_error_body IPC_ERR_INVALID_ARGUMENT
                             ''invalid argument: timeout is NULL'' error, dest), w)
                 | Some t \<Rightarrow>
                     if is_negative (tv_nsec t) \<or> is_negative (tv_sec t) then
                       Done ((result_error_body IPC_ERR_INVALID_ARGUMENT
                         ''invalid argument: timeout must be {timeout->tv_nsec >= 0 && timeout->tv_sec >= 0}''
                         error, dest), w)
                     else
                       let error = error\<lparr>cre_timeout_used := t\<rparr>
                       in case clock_gettime os (tick w) of
                            Inr e \<Rightarrow> Done ((result_error_body IPC_ERR_SYSTEM
                                ''system error: clock_gettime failed''
                                (error\<lparr>cre_sys_errno := e\<rparr>), dest),
                                w\<lparr>tick := Suc (tick w), last_errno := e\<rparr>)
                          | Inl start_time \<Rightarrow>
                              bind_run (read_loop k n fuel os (ipc_timespec_to_nanos (Some start_time))
                                  (ipc_timespec_to_nanos (Some t)) error empty_entry out
                                  (w\<lparr>tick := Suc (tick w)\<rparr>))
                                (\<lambda>((r, out), w). Done ((r, Some out), w)))))"

section \<open>Peek and skip\<close>

record IpcChannelPeekError =
  cpe_offset :: u64

type_synonym IpcChannelPeekResult = "(unit, IpcChannelPeekError) ipc_result"

definition ipc_channel_peek :: "nat \<Rightarrow> os \<Rightarrow> IpcEntry option \<Rightarrow> world \<Rightarrow>
    ((IpcChannelPeekResult \<times> IpcEntry option) \<times> world) run" where
  "ipc_channel_peek fuel os dest w =
     (let error = \<lparr>cpe_offset = 0\<rparr>
      in case channel w of
           None \<Rightarrow> Done ((result_error_body IPC_ERR_INVALID_ARGUMENT
                     ''invalid argument: channel is NULL'' error, dest), w)
         | Some c \<Rightarrow>
             if channel_buffer c = None then
               Done ((result_error_body IPC_ERR_ILLEGAL_STATE
                 ''illegal state: channel->buffer is NULL'' error, dest), w)
             else if dest = None then
               Done ((result_error_body IPC_ERR_INVALID_ARGUMENT
                 ''invalid argument: dest is NULL'' error, None), w)
             else
               bind_run (call_buffer os (\<lambda>b. with_entry (ipc_buffer_peek fuel b dest)) w)
                 (\<lambda>((r, dest), w).
               if is_error r then
                 access (error_body r) (\<lambda>e.
                   Done ((result_error_body (ipc_status r) (detail_of os r)
                           (error\<lparr>cpe_offset := pe_offset e\<rparr>), dest), w))
               else Done ((result_ok (ipc_status r) (), dest), w)))"

record IpcChannelSkipError =
  cse_offset :: u64

type_synonym IpcChannelSkipResult = "(u64, IpcChannelSkipError) ipc_result"

definition ipc_channel_skip :: "nat \<Rightarrow> os \<Rightarrow> u64 \<Rightarrow> world \<Rightarrow> (IpcChannelSkipResult \<times> world) run" where
  "ipc_channel_skip fuel os off w =
     (let error = \<lparr>cse_offset = off\<rparr>
      in case channel w of
           None \<Rightarrow> Done (result_error_body IPC_ERR_INVALID_ARGUMENT
                     ''invalid argument: channel is NULL'' error, w)
         | Some c \<Rightarrow>
             if channel_buffer c = None then
               Done (result_error_body IPC_ERR_ILLEGAL_STATE
                 ''illegal state: channel->buffer is NULL'' error, w)
             else
               bind_run (call_buffer os (\<lambda>b. ipc_buffer_skip fuel b off) w) (\<lambda>(r, w).
                 if is_error r then
                   access (error_body r) (\<lambda>e.
                     Done (result_error_body (ipc_status r) (detail_of os r)
                             (error\<lparr>cse_offset := se_offset e\<rparr>), w))
                 else access (union_result (content r)) (\<lambda>v.
                        Done (result_ok (ipc_status r) v, w))))"

record IpcChannelSkipForceError =
  csfe_unit :: bool

type_synonym IpcChannelSkipForceResult = "(u64, IpcChannelSkipForceError) ipc_result"

definition ipc_channel_skip_force :: "os \<Rightarrow> world \<Rightarrow> (IpcChannelSkipForceResult \<times> world) run" where
  "ipc_channel_skip_force os w =
     (let error = \<lparr>csfe_unit = False\<rparr>
      in case channel w of
           None \<Rightarrow> Done (result_error_body IPC_ERR_INVALID_ARGUMENT
                     ''invalid argument: channel is NULL'' error, w)
         | Some c \<Rightarrow>
             if channel_buffer c = None then
               Done (result_error_body IPC_ERR_ILLEGAL_STATE
                 ''illegal state: channel->buffer is NULL'' error, w)
             else
               bind_run (call_buffer os ipc_buffer_skip_force w) (\<lambda>(r, w).
                 if is_error r then
                   Done (result_error_body (ipc_status r) (detail_of os r) error, w)
                 else access (union_result (content r)) (\<lambda>v.
                        Done (result_ok (ipc_status r) v, w))))"

end
