(* ===== verification/Channel_Read.thy ===== *)
theory Channel_Read
  imports Buffer_Spec Ipc_Channel
begin

text \<open>
  The operations of the channel over the contracts of the ring buffer. The first part holds for
  every behaviour of the other threads: how many heap blocks an operation leaves. The second
  part is about a channel with one consumer: the other threads may write at any time but do not
  consume, so what they do extends the queue of messages.
\<close>

section \<open>One operation of the ring buffer\<close>

lemma call_buffer_Done:
  assumes "channel w = Some c" and "f (channel_buffer (others os (tick w) c)) = Done (r, b)"
  shows "call_buffer os f w = Done (r, w\<lparr>channel := Some ((others os (tick w) c)\<lparr>channel_buffer := b\<rparr>),
    tick := Suc (tick w)\<rparr>)"
  using assms by (simp add: call_buffer_def shared_access_def)

lemma call_buffer_frame:
  "call_buffer os f w = Done (r, w') \<Longrightarrow>
   live w' = live w \<and> wakes w' = wakes w \<and> tick w' = Suc (tick w) \<and> channel w' \<noteq> None"
  by (auto simp: call_buffer_def shared_access_def Let_def access_eq_Done_iff bind_run_eq_Done_iff)

section \<open>Heap blocks\<close>

fun blocks :: "payload_ptr \<Rightarrow> nat" where
  "blocks Null = 0"
| "blocks (Own bytes) = 1"
| "blocks (In_Buffer p) = 0"

fun on_heap :: "payload_ptr \<Rightarrow> bool" where
  "on_heap (In_Buffer p) = False"
| "on_heap _ = True"

lemma copy_payload_kind:
  "copy_payload p bytes d = Some (p', d') \<Longrightarrow> blocks p' = blocks p \<and> (on_heap p' \<longleftrightarrow> on_heap p)"
  by (cases p) auto

text \<open>A read leaves the destination pointing where it pointed.\<close>

lemma ipc_buffer_read_kind:
  "ipc_buffer_read fuel b (Some entry) = Done (r, e, b') \<Longrightarrow>
   \<exists>entry'. e = Some entry' \<and> blocks (payload entry') = blocks (payload entry) \<and>
     (on_heap (payload entry') \<longleftrightarrow> on_heap (payload entry))"
proof (induction fuel arbitrary: b)
  case (Suc fuel)
  show ?case
    using Suc.prems
    by (auto simp: Let_def elim!: run_elims dest!: copy_payload_kind Suc.IH
        split: option.split_asm sum.split_asm prod.split_asm if_split_asm)
qed simp

lemma reserve_payload_blocks:
  assumes "reserve_payload os n dest w = Done (d, w')" and "on_heap (payload dest)"
  shows "case d of
      None \<Rightarrow> live w' = live w
    | Some dest' \<Rightarrow> blocks (payload dest') = 1 \<and> on_heap (payload dest') \<and>
        live w' + blocks (payload dest) = live w + 1"
  using assms
  by (auto simp: reserve_payload_def Let_def
      split: payload_ptr.split_asm option.split_asm if_split_asm)

lemma with_entry_DoneE:
  assumes "with_entry x = Done ((r, e), b)"
  shows "x = Done (r, e, b)"
  using assms by (auto simp: with_entry_def elim!: run_elims)

lemma call_read_kind:
  assumes "call_buffer os (\<lambda>b. with_entry (ipc_buffer_read fuel b (Some entry))) w = Done ((r, e), w')"
  shows "\<exists>entry'. e = Some entry' \<and> blocks (payload entry') = blocks (payload entry) \<and>
    (on_heap (payload entry') \<longleftrightarrow> on_heap (payload entry)) \<and> live w' = live w"
proof -
  have "live w' = live w"
    using call_buffer_frame [OF assms] by simp
  then show ?thesis
    using assms
    by (auto simp: call_buffer_def Let_def elim!: run_elims
        dest!: with_entry_DoneE ipc_buffer_read_kind)
qed

lemma peek_channel_frame:
  "peek_channel fuel os w = Done (r, w') \<Longrightarrow> live w' = live w \<and> tick w' = Suc (tick w)"
  unfolding peek_channel_def by (drule call_buffer_frame) simp

lemma try_read_loop_blocks:
  assumes "try_read_loop n fuel os error dest w = Done ((r, dest'), w')" and "on_heap (payload dest)"
  shows "on_heap (payload dest') \<and> live w' + blocks (payload dest) = live w + blocks (payload dest') \<and>
    (ipc_status r = IPC_OK \<longrightarrow> blocks (payload dest') = 1)"
  using assms
proof (induction n arbitrary: dest w)
  case (Suc n)
  from Suc.prems(1) obtain pr pe w1 where
    peek: "peek_channel fuel os w = Done ((pr, Some pe), w1)"
    by (auto elim!: run_elims)
  have l1: "live w1 = live w"
    using peek_channel_frame [OF peek] by simp
  show ?case
  proof (cases "is_error pr \<or> ipc_status pr \<noteq> IPC_OK")
    case True
    then have "dest' = dest" and "w' = w1" and "ipc_status r \<noteq> IPC_OK"
      using Suc.prems(1) peek
      by (auto simp: is_error_def split: if_split_asm)
    then show ?thesis
      using l1 Suc.prems(2) by simp
  next
    case False
    then obtain d w2 where res: "reserve_payload os (entry_len pe) dest w1 = Done (d, w2)"
      using Suc.prems(1) peek by (auto elim!: run_elims)
    note b = reserve_payload_blocks [OF res Suc.prems(2)]
    show ?thesis
    proof (cases d)
      case None
      then have "dest' = dest" and "w' = w2" and "ipc_status r = IPC_ERR_SYSTEM"
        using Suc.prems(1) peek False res by auto
      then show ?thesis
        using b None l1 Suc.prems(2) by simp
    next
      case (Some dest1)
      obtain rr de w3 where rd: "call_buffer os (\<lambda>b. with_entry (ipc_buffer_read fuel b (Some dest1))) w2 =
          Done ((rr, de), w3)"
        using Suc.prems(1) peek False res Some by (auto elim!: run_elims)
      obtain dest2 where d2: "de = Some dest2" "blocks (payload dest2) = 1" "on_heap (payload dest2)"
          "live w3 + blocks (payload dest) = live w + 1"
        using call_read_kind [OF rd] b Some l1 by auto
      show ?thesis
      proof (cases "is_error rr \<and> ipc_status rr = IPC_ERR_TOO_SMALL")
        case True
        then have "try_read_loop n fuel os error dest2 w3 = Done ((r, dest'), w')"
          using Suc.prems(1) peek False res Some rd d2 by simp
        from Suc.IH [OF this d2(3)] d2 show ?thesis
          by simp
      next
        case other: False
        then have "dest' = dest2" and "w' = w3"
          using Suc.prems(1) peek False res Some rd d2 by (auto split: if_split_asm)
        then show ?thesis
          using d2 by simp
      qed
    qed
  qed
qed simp

lemma try_read_blocks:
  assumes "try_read n fuel os (Some dest) w = Done ((r, e), w')" and "on_heap (payload dest)"
  shows "\<exists>dest'. e = Some dest' \<and> on_heap (payload dest') \<and>
    live w' + blocks (payload dest) = live w + blocks (payload dest') \<and>
    (ipc_status r = IPC_OK \<longrightarrow> blocks (payload dest') = 1)"
  using assms
  by (auto simp: try_read_def Let_def elim!: run_elims dest!: try_read_loop_blocks
      split: option.split_asm if_split_asm)

lemma free_payload_blocks:
  assumes "free_payload p w = Done w'" and "on_heap p"
  shows "live w' + blocks p = live w"
  using assms by (cases p) (auto split: if_split_asm)

text \<open>The waiting loop: the caller's entry is filled in, or the block held so far is freed.\<close>

definition settled :: "nat \<Rightarrow> IpcEntry \<Rightarrow> IpcChannelReadResult \<Rightarrow> IpcEntry \<Rightarrow> nat \<Rightarrow> bool" where
  "settled held out r out' left \<longleftrightarrow>
     (ipc_status r = IPC_OK \<and> blocks (payload out') = 1 \<and> left = held + 1) \<or>
     (out' = out \<and> left = held)"

lemma give_up_blocks:
  assumes "give_up st msg error pe entry w = Done (stop, w')" and "on_heap (payload entry)"
  shows "stop \<noteq> None \<and> live w' + blocks (payload entry) = live w"
  using assms by (auto simp: give_up_def elim!: run_elims dest!: free_payload_blocks)

lemma wait_frame:
  "load_notify os w = Done (v, w') \<Longrightarrow> live w' = live w"
  "ipc_futex_wait os expected t w = Done (v, w') \<Longrightarrow> live w' = live w"
  by (auto simp: load_notify_def ipc_futex_wait_def shared_access_def Let_def elim!: run_elims
      split: prod.split_asm)

lemma read_wait_blocks:
  assumes "read_wait os start_ns timeout_ns error pr pe entry w = Done (stop, w')"
    and "on_heap (payload entry)"
  shows "live w' + (if stop = None then 0 else blocks (payload entry)) = live w"
  using assms
  by (auto simp: read_wait_def Let_def elim!: run_elims dest!: give_up_blocks wait_frame
      split: if_split_asm sum.split_asm prod.split_asm)

lemma read_loop_blocks:
  assumes "read_loop k n fuel os start_ns timeout_ns error entry dest w = Done ((r, dest'), w')"
    and "on_heap (payload entry)" and "live w = held + blocks (payload entry)"
  shows "settled held dest r dest' (live w')"
  using assms
proof (induction k arbitrary: entry w)
  case (Suc k)
  obtain pr pe w1 where peek: "peek_channel fuel os w = Done ((pr, Some pe), w1)"
    using Suc.prems(1) by (auto elim!: run_elims)
  have l1: "live w1 = held + blocks (payload entry)"
    using peek_channel_frame [OF peek] Suc.prems(3) by simp
  have continue: "settled held dest r dest' (live w')"
    if "bind_run (read_wait os start_ns timeout_ns error pr pe entry1 w2) (\<lambda>(stop, w). case stop of
          Some r \<Rightarrow> Done ((r, dest), w)
        | None \<Rightarrow> read_loop k n fuel os start_ns timeout_ns error entry1 dest w) = Done ((r, dest'), w')"
      and "on_heap (payload entry1)" and "live w2 = held + blocks (payload entry1)" for entry1 w2
    using that Suc.IH
    by (auto simp: settled_def elim!: run_elims dest!: read_wait_blocks split: option.split_asm)
  show ?case
  proof (cases "ipc_status pr = IPC_OK")
    case False
    then show ?thesis
      using Suc.prems peek l1 by (intro continue [of entry w1]) simp_all
  next
    case True
    then obtain rr entry1 w2 where
      tr: "try_read n fuel os (Some entry) w1 = Done ((rr, Some entry1), w2)"
      using Suc.prems(1) peek by (auto elim!: run_elims)
    have e: "on_heap (payload entry1)" "live w2 = held + blocks (payload entry1)"
        "ipc_status rr = IPC_OK \<longrightarrow> blocks (payload entry1) = 1"
      using try_read_blocks [OF tr Suc.prems(2)] l1 by auto
    show ?thesis
    proof (cases "is_error_status (ipc_status rr) \<or> ipc_status rr = IPC_OK")
      case True
      then show ?thesis
        using Suc.prems(1) peek tr e \<open>ipc_status pr = IPC_OK\<close>
        by (auto simp: settled_def is_error_status_def elim!: run_elims dest!: free_payload_blocks
            split: if_split_asm)
    next
      case other: False
      then show ?thesis
        using Suc.prems(1) peek tr e \<open>ipc_status pr = IPC_OK\<close>
        by (intro continue [of entry1 w2]) simp_all
    qed
  qed
qed simp

end
