(* ===== verification/Channel_Spec.thy ===== *)
theory Channel_Spec
  imports Channel_Read
begin

text \<open>
  The channel with one consumer: the other threads may write at any moment between two accesses
  of this one, but only this thread consumes. Then the operations of the channel are those of a
  queue to whose end the other threads append.
\<close>

section \<open>The queue of a channel\<close>

definition chan_ok :: "nat \<Rightarrow> IpcChannel \<Rightarrow> bool" where
  "chan_ok fuel c \<longleftrightarrow> (\<exists>b. channel_buffer c = Some b \<and> buffer_inv b \<and> capacity b < fuel)"

definition chan_messages :: "IpcChannel \<Rightarrow> u8 list list" where
  "chan_messages c = (case channel_buffer c of None \<Rightarrow> [] | Some b \<Rightarrow> messages b)"

definition world_ok :: "nat \<Rightarrow> world \<Rightarrow> bool" where
  "world_ok fuel w \<longleftrightarrow> (\<exists>c. channel w = Some c \<and> chan_ok fuel c)"

definition pending :: "world \<Rightarrow> u8 list list" where
  "pending w = (case channel w of None \<Rightarrow> [] | Some c \<Rightarrow> chan_messages c)"

text \<open>What the other threads do, and what the allocator promises.\<close>

definition sole_consumer :: "u8 list set \<Rightarrow> nat \<Rightarrow> os \<Rightarrow> bool" where
  "sole_consumer X fuel os \<longleftrightarrow> (\<forall>t c. chan_ok fuel c \<longrightarrow>
     chan_ok fuel (others os t c) \<and> (\<exists>xs. set xs \<subseteq> X \<and> chan_messages (others os t c) = chan_messages c @ xs))"

definition allocator_ok :: "os \<Rightarrow> bool" where
  "allocator_ok os \<longleftrightarrow> (\<forall>t n bytes. mem_alloc os t n = Some bytes \<longrightarrow> length bytes = n)"

definition allocation_fails :: "os \<Rightarrow> bool" where
  "allocation_fails os \<longleftrightarrow> (\<exists>t n. mem_alloc os t n = None)"

lemma sole_consumerE:
  assumes "sole_consumer X fuel os" and "world_ok fuel w"
  obtains c b xs where "channel w = Some c" and "channel_buffer (others os (tick w) c) = Some b"
    and "buffer_inv b" and "capacity b < fuel" and "messages b = pending w @ xs" and "set xs \<subseteq> X"
proof -
  obtain c where c: "channel w = Some c" "chan_ok fuel c"
    using assms(2) by (auto simp: world_ok_def)
  then obtain xs where "chan_ok fuel (others os (tick w) c)" "set xs \<subseteq> X"
    "chan_messages (others os (tick w) c) = chan_messages c @ xs"
    using assms(1) unfolding sole_consumer_def by blast
  then show ?thesis
    using that [OF c(1)] c(1) by (auto simp: chan_ok_def chan_messages_def pending_def)
qed

lemma capacity_cong: "data_size (header b') = data_size (header b) \<Longrightarrow> capacity b' = capacity b"
  by (simp add: capacity_def)

lemma peek_channel_queue:
  assumes "sole_consumer X fuel os" and "world_ok fuel w"
  shows "\<exists>r pe w' xs. peek_channel fuel os w = Done ((r, Some pe), w') \<and> world_ok fuel w' \<and>
    tick w' = Suc (tick w) \<and> set xs \<subseteq> X \<and> pending w' = pending w @ xs \<and>
    (case pending w' of
       [] \<Rightarrow> ipc_status r = IPC_EMPTY
     | m # ms \<Rightarrow> ipc_status r = IPC_OK \<and> unat (entry_len pe) = length m)"
proof -
  obtain c b xs where c: "channel w = Some c" "channel_buffer (others os (tick w) c) = Some b"
    and b: "buffer_inv b" "capacity b < fuel" "messages b = pending w @ xs" "set xs \<subseteq> X"
    using assms by (rule sole_consumerE)
  obtain es where es: "ring b es" "unlocked b"
    using b(1) by (rule buffer_invE)
  have "length es < fuel"
    using ring_length_le [OF es(1)] b(2) by simp
  from ipc_buffer_peek_correct [OF es this, of "uninit_entry os (tick w)"] obtain r pe b' where
    pk: "ipc_buffer_peek fuel (Some b) (Some (uninit_entry os (tick w))) = Done (r, Some pe, Some b')"
    and b': "buffer_inv b'" "consumer_frame b b'" "messages b' = messages b"
    and res: "case messages b of [] \<Rightarrow> ipc_status r = IPC_EMPTY \<and> pe = uninit_entry os (tick w)
      | m # ms \<Rightarrow> ipc_status r = IPC_OK \<and> peeked b' pe m"
    by (auto simp: buffer_inv_def)
  have "peek_channel fuel os w = Done ((r, Some pe), w\<lparr>channel :=
      Some ((others os (tick w) c)\<lparr>channel_buffer := Some b'\<rparr>), tick := Suc (tick w)\<rparr>)"
    unfolding peek_channel_def using c(1) by (rule call_buffer_Done) (simp add: c with_entry_def pk)
  moreover have "capacity b' < fuel"
    using b(2) b'(2) capacity_cong [of b' b] by (simp add: consumer_frame_def)
  ultimately show ?thesis
    using b b' res
    by (auto simp: world_ok_def chan_ok_def pending_def chan_messages_def peeked_def split: list.splits)
qed

lemma read_channel_queue:
  assumes "sole_consumer X fuel os" and "world_ok fuel w" and "pending w = m # ms"
    and "own_entry dest buf" and "length m \<le> unat (entry_len dest)"
  shows "\<exists>r de w' xs. call_buffer os (\<lambda>b. with_entry (ipc_buffer_read fuel b (Some dest))) w =
      Done ((r, Some de), w') \<and> world_ok fuel w' \<and> ipc_status r = IPC_OK \<and>
    payload de = Own (m @ drop (length m) buf) \<and> unat (entry_len de) = length m \<and>
    set xs \<subseteq> X \<and> pending w' = ms @ xs"
proof -
  obtain c b xs where c: "channel w = Some c" "channel_buffer (others os (tick w) c) = Some b"
    and b: "buffer_inv b" "capacity b < fuel" "messages b = pending w @ xs" "set xs \<subseteq> X"
    using assms(1,2) by (rule sole_consumerE)
  obtain es where es: "ring b es" "unlocked b"
    using b(1) by (rule buffer_invE)
  have "length es < fuel"
    using ring_length_le [OF es(1)] b(2) by simp
  from ipc_buffer_read_correct [OF es assms(4) this] obtain r de b' where
    rd: "ipc_buffer_read fuel (Some b) (Some dest) = Done (r, Some de, Some b')"
    and b': "buffer_inv b'" "consumer_frame b b'" "messages b' = ms @ xs"
    and res: "ipc_status r = IPC_OK" "payload de = Own (m @ drop (length m) buf)"
      "unat (entry_len de) = length m"
    using b(3) assms(3,5) by (auto simp: buffer_inv_def)
  have "call_buffer os (\<lambda>b. with_entry (ipc_buffer_read fuel b (Some dest))) w =
      Done ((r, Some de), w\<lparr>channel := Some ((others os (tick w) c)\<lparr>channel_buffer := Some b'\<rparr>),
        tick := Suc (tick w)\<rparr>)"
    using c(1) by (rule call_buffer_Done) (simp add: c with_entry_def rd)
  moreover have "capacity b' < fuel"
    using b(2) b'(2) capacity_cong [of b' b] by (simp add: consumer_frame_def)
  ultimately show ?thesis
    using b b' res by (auto simp: world_ok_def chan_ok_def pending_def chan_messages_def)
qed

section \<open>Environments to run the operations in\<close>

text \<open>
  A system in which this thread is alone: nothing fails, and the clock advances by one second
  at each access.
\<close>

definition solo_os :: os where
  "solo_os = \<lparr>others = (\<lambda>t c. c), platform = Linux, sys_futex_wait = (\<lambda>t value expected timeout. (0, 0)),
     sys_ulock_wait = (\<lambda>t value expected timeout. (0, 0)), sys_wake = (\<lambda>t n. (0, 0)),
     clock_gettime = (\<lambda>t. Inl \<lparr>tv_sec = word_of_nat t, tv_nsec = 0\<rparr>),
     mem_alloc = (\<lambda>t n. Some (replicate n 0)), mem_realloc = (\<lambda>t old n. Some (replicate n 0)),
     uninit_entry = (\<lambda>t. empty_entry), uninit_detail = []\<rparr>"

definition world_of :: "IpcChannel \<Rightarrow> world" where
  "world_of c = \<lparr>channel = Some c, tick = 0, live = 0, wakes = 0, last_errno = 0\<rparr>"

definition channel_of :: "IpcBuffer \<Rightarrow> IpcChannel" where
  "channel_of b = \<lparr>notify = 0, channel_buffer = Some b\<rparr>"

lemma solo_os_facts:
  "sole_consumer {} fuel solo_os" "allocator_ok solo_os" "\<not> allocation_fails solo_os"
  "clock_gettime solo_os t = Inl \<lparr>tv_sec = word_of_nat t, tv_nsec = 0\<rparr>"
  by (simp_all add: sole_consumer_def allocator_ok_def allocation_fails_def solo_os_def)

lemma world_of_facts:
  "world_ok fuel (world_of c) = chan_ok fuel c" "pending (world_of c) = chan_messages c"
  "tick (world_of c) = 0" "channel (world_of c) = Some c"
  by (simp_all add: world_ok_def pending_def world_of_def)

lemma channel_of_facts:
  "chan_ok fuel (channel_of b) \<longleftrightarrow> buffer_inv b \<and> capacity b < fuel"
  "chan_messages (channel_of b) = messages b"
  by (auto simp: chan_ok_def chan_messages_def channel_of_def)

lemma sample_channels:
  "world_ok 200 (world_of (channel_of one_message))" "pending (world_of (channel_of one_message)) = [[1, 2, 3]]"
  "world_ok 200 (world_of (channel_of (empty_buffer 128)))" "pending (world_of (channel_of (empty_buffer 128))) = []"
  using one_message_facts one_message_capacity empty_128
  by (simp_all add: world_of_facts channel_of_facts)

section \<open>Trying to read\<close>

text \<open>The oldest message was taken, or nothing was taken; others may have appended meanwhile.\<close>

definition takes_oldest :: "u8 list set \<Rightarrow> world \<Rightarrow> world \<Rightarrow> IpcEntry \<Rightarrow> bool" where
  "takes_oldest X w w' entry \<longleftrightarrow> (\<exists>m xs. set xs \<subseteq> X \<and> pending w @ xs = m # pending w' \<and>
     payload entry = Own m \<and> unat (entry_len entry) = length m)"

definition keeps_all :: "u8 list set \<Rightarrow> world \<Rightarrow> world \<Rightarrow> bool" where
  "keeps_all X w w' \<longleftrightarrow> (\<exists>xs. set xs \<subseteq> X \<and> pending w' = pending w @ xs)"

lemma keeps_all_trans: "keeps_all X a b \<Longrightarrow> keeps_all X b c \<Longrightarrow> keeps_all X a c"
  unfolding keeps_all_def by (metis append.assoc le_sup_iff set_append)

lemma keeps_takes: "keeps_all X a b \<Longrightarrow> takes_oldest X b c e \<Longrightarrow> takes_oldest X a c e"
  unfolding keeps_all_def takes_oldest_def by (metis append.assoc le_sup_iff set_append)

definition try_outcome :: "u8 list set \<Rightarrow> os \<Rightarrow> world \<Rightarrow> IpcEntry \<Rightarrow> IpcChannelReadResult \<Rightarrow> IpcEntry \<Rightarrow> world \<Rightarrow> bool" where
  "try_outcome X os w dest r dest' w' \<longleftrightarrow>
     (case ipc_status r of
        IPC_OK \<Rightarrow> takes_oldest X w w' dest'
      | IPC_EMPTY \<Rightarrow> pending w = [] \<and> keeps_all X w w' \<and> dest' = dest
      | IPC_ERR_SYSTEM \<Rightarrow> keeps_all X w w' \<and> dest' = dest \<and> allocation_fails os \<and>
          error_body r \<noteq> None
      | _ \<Rightarrow> False)"

lemma try_read_loop_queue:
  assumes sole: "sole_consumer X fuel os" and alloc: "allocator_ok os" and ok: "world_ok fuel w"
    and null: "payload dest = Null"
  shows "\<exists>r dest' w'. try_read_loop (Suc n) fuel os error dest w = Done ((r, dest'), w') \<and>
    world_ok fuel w' \<and> tick w < tick w' \<and> try_outcome X os w dest r dest' w'"
proof -
  obtain pr pe w1 xs where pk: "peek_channel fuel os w = Done ((pr, Some pe), w1)"
    and w1: "world_ok fuel w1" "tick w1 = Suc (tick w)" "pending w1 = pending w @ xs" "set xs \<subseteq> X"
    and res: "case pending w1 of [] \<Rightarrow> ipc_status pr = IPC_EMPTY
      | m # ms \<Rightarrow> ipc_status pr = IPC_OK \<and> unat (entry_len pe) = length m"
    using peek_channel_queue [OF sole ok] by blast
  show ?thesis
  proof (cases "pending w1")
    case Nil
    then have "ipc_status pr = IPC_EMPTY" "\<not> is_error pr"
      using res by (simp_all add: is_error_iff)
    then show ?thesis
      using pk w1 Nil by (simp add: try_outcome_def keeps_all_def)
  next
    case (Cons m ms)
    then have st: "ipc_status pr = IPC_OK" "\<not> is_error pr" and len: "unat (entry_len pe) = length m"
      using res by (simp_all add: is_error_iff)
    show ?thesis
    proof (cases "mem_alloc os (tick w1) (length m)")
      case None
      then show ?thesis
        using pk st len w1 null
        by (auto simp: reserve_payload_def try_outcome_def keeps_all_def Let_def world_ok_def
            pending_def allocation_fails_def)
    next
      case (Some buf)
      let ?dest = "dest\<lparr>payload := Own buf, entry_len := entry_len pe\<rparr>"
      let ?w = "w1\<lparr>tick := Suc (tick w1), live := Suc (live w1)\<rparr>"
      have buf: "length buf = length m"
        using alloc Some by (simp add: allocator_ok_def)
      have "world_ok fuel ?w" "pending ?w = m # ms" "own_entry ?dest buf"
        using w1 Cons buf len by (simp_all add: world_ok_def pending_def own_entry_def)
      from read_channel_queue [OF sole this] len obtain rr de w2 ys where
        rd: "call_buffer os (\<lambda>b. with_entry (ipc_buffer_read fuel b (Some ?dest))) ?w =
          Done ((rr, Some de), w2)" "world_ok fuel w2" "ipc_status rr = IPC_OK"
          "payload de = Own m" "unat (entry_len de) = length m" "pending w2 = ms @ ys" "set ys \<subseteq> X"
        by (auto simp: buf)
      have "tick w2 = Suc (tick ?w)"
        using call_buffer_frame [OF rd(1)] by simp
      then show ?thesis
        using pk st len w1 null Some rd Cons
        by (auto simp: reserve_payload_def try_outcome_def takes_oldest_def is_error_iff
            intro!: exI [of _ "xs @ ys"])
    qed
  qed
qed

lemma try_read_queue:
  assumes "sole_consumer X fuel os" and "allocator_ok os" and "world_ok fuel w" and "payload dest = Null"
  shows "\<exists>r dest' w'. try_read (Suc n) fuel os (Some dest) w = Done ((r, Some dest'), w') \<and>
    world_ok fuel w' \<and> tick w < tick w' \<and> try_outcome X os w dest r dest' w'"
proof -
  obtain c where "channel w = Some c" "channel_buffer c \<noteq> None"
    using assms(3) by (auto simp: world_ok_def chan_ok_def)
  then show ?thesis
    using try_read_loop_queue [OF assms, of n no_read_error]
    by (auto simp: try_read_def Let_def simp del: try_read_loop.simps)
qed

lemma channel_try_read_queue:
  assumes "sole_consumer X fuel os" and "allocator_ok os" and "world_ok fuel w"
  shows "\<exists>r out' w'. ipc_channel_try_read (Suc n) fuel os (Some out) w = Done ((r, Some out'), w') \<and>
    world_ok fuel w' \<and>
    (ipc_status r = IPC_OK \<and> takes_oldest X w w' out' \<or>
     ipc_status r = IPC_EMPTY \<and> pending w = [] \<and> keeps_all X w w' \<and> out' = out \<or>
     ipc_status r = IPC_ERR_SYSTEM \<and> keeps_all X w w' \<and> out' = out \<and> allocation_fails os)"
proof -
  have null: "payload empty_entry = Null"
    by (simp add: empty_entry_def)
  obtain r e w' where tr: "try_read (Suc n) fuel os (Some empty_entry) w = Done ((r, Some e), w')"
    and ok: "world_ok fuel w'" and out: "try_outcome X os w empty_entry r e w'"
    using try_read_queue [OF assms null] by blast
  obtain c where c: "channel w = Some c" "channel_buffer c \<noteq> None"
    using assms(3) by (auto simp: world_ok_def chan_ok_def)
  show ?thesis
    using c tr ok out null
    by (auto simp: ipc_channel_try_read_def try_outcome_def takes_oldest_def is_error_iff Let_def
        split: IpcStatus.split_asm)
qed



section \<open>Reading with a timeout\<close>

lemma shared_access_queue:
  assumes "sole_consumer X fuel os" and "world_ok fuel w"
  shows "world_ok fuel (shared_access os w)" and "keeps_all X w (shared_access os w)"
    and "\<exists>c. channel (shared_access os w) = Some c"
proof -
  obtain c where c: "channel w = Some c" "chan_ok fuel c"
    using assms(2) by (auto simp: world_ok_def)
  then obtain xs where xs: "chan_ok fuel (others os (tick w) c)" "set xs \<subseteq> X"
    "chan_messages (others os (tick w) c) = chan_messages c @ xs"
    using assms(1) unfolding sole_consumer_def by blast
  show "world_ok fuel (shared_access os w)" and "keeps_all X w (shared_access os w)"
    and "\<exists>c. channel (shared_access os w) = Some c"
    using c xs by (simp_all add: shared_access_def world_ok_def keeps_all_def pending_def)
qed

lemma load_notify_queue:
  assumes "sole_consumer X fuel os" and "world_ok fuel w"
  shows "\<exists>v w'. load_notify os w = Done (v, w') \<and> world_ok fuel w' \<and> keeps_all X w w' \<and>
    tick w' = Suc (tick w)"
  using shared_access_queue [OF assms]
  by (auto simp: load_notify_def Let_def) (simp add: shared_access_def)

lemma ipc_futex_wait_queue:
  assumes "sole_consumer X fuel os" and "world_ok fuel w"
  shows "\<exists>v w'. ipc_futex_wait os expected t w = Done (v, w') \<and> world_ok fuel w' \<and> keeps_all X w w' \<and>
    tick w' = Suc (tick w)"
  using shared_access_queue [OF assms]
  by (auto simp: ipc_futex_wait_def Let_def keeps_all_def world_ok_def pending_def split: prod.split)
    (simp_all add: shared_access_def)

text \<open>Whether the clock read at access \<open>t\<close> says that the time is over.\<close>

definition expired :: "os \<Rightarrow> u64 \<Rightarrow> u64 \<Rightarrow> nat \<Rightarrow> bool" where
  "expired os start_ns timeout_ns t \<longleftrightarrow>
     (\<exists>x. clock_gettime os t = Inl x \<and> timeout_ns \<le> ipc_timespec_to_nanos (Some x) - start_ns)"

definition over_from :: "os \<Rightarrow> u64 \<Rightarrow> u64 \<Rightarrow> nat \<Rightarrow> bool" where
  "over_from os start_ns timeout_ns T \<longleftrightarrow>
     (\<forall>i x. T \<le> i \<longrightarrow> clock_gettime os i = Inl x \<longrightarrow> expired os start_ns timeout_ns i)"

definition system_fails :: "os \<Rightarrow> bool" where
  "system_fails os \<longleftrightarrow> allocation_fails os \<or> (\<exists>t e. clock_gettime os t = Inr e) \<or>
     (\<exists>expected timeout w w' v. ipc_futex_wait os expected timeout w = Done (v, w') \<and>
        v \<noteq> 0 \<and> v \<noteq> ETIMEDOUT (platform os))"

lemma keeps_all_tick:
  "keeps_all X w (w'\<lparr>tick := t\<rparr>) = keeps_all X w w'" "keeps_all X (w\<lparr>tick := t\<rparr>) w' = keeps_all X w w'"
  "keeps_all X w (w'\<lparr>last_errno := e\<rparr>) = keeps_all X w w'"
  "world_ok fuel (w\<lparr>tick := t\<rparr>) = world_ok fuel w" "world_ok fuel (w\<lparr>last_errno := e\<rparr>) = world_ok fuel w"
  "keeps_all X w w"
  by (simp_all add: keeps_all_def world_ok_def pending_def)

lemma read_wait_queue:
  assumes sole: "sole_consumer X fuel os" and ok: "world_ok fuel w" and null: "payload entry = Null"
    and retry: "is_retry_status (ipc_status pr)"
  shows "\<exists>stop w'. read_wait os start_ns timeout_ns error pr pe entry w = Done (stop, w') \<and>
    world_ok fuel w' \<and> keeps_all X w w' \<and> tick w < tick w' \<and>
    (case stop of
       None \<Rightarrow> (\<exists>x. clock_gettime os (tick w) = Inl x) \<and> \<not> expired os start_ns timeout_ns (tick w)
     | Some r \<Rightarrow> ipc_status r = IPC_ERR_TIMEOUT \<and> expired os start_ns timeout_ns (tick w) \<or>
         ipc_status r = IPC_ERR_SYSTEM \<and> system_fails os)"
proof (cases "clock_gettime os (tick w)")
  case (Inr e)
  then show ?thesis
    using ok null retry
    by (auto simp: read_wait_def give_up_def keeps_all_tick system_fails_def)
next
  case (Inl x)
  let ?w = "w\<lparr>tick := Suc (tick w)\<rparr>"
  show ?thesis
  proof (cases "timeout_ns \<le> ipc_timespec_to_nanos (Some x) - start_ns")
    case True
    then show ?thesis
      using Inl ok null retry
      by (auto simp: read_wait_def give_up_def keeps_all_tick expired_def Let_def)
  next
    case False
    have "world_ok fuel ?w"
      using ok by (simp add: keeps_all_tick)
    then obtain v w1 where l: "load_notify os ?w = Done (v, w1)" "world_ok fuel w1"
        "keeps_all X w w1" "tick w1 = Suc (tick ?w)"
      using load_notify_queue [OF sole] keeps_all_tick(2) by metis
    let ?t = "nanos_to_timespec (timeout_ns - (ipc_timespec_to_nanos (Some x) - start_ns))"
    obtain res w2 where f: "ipc_futex_wait os v ?t w1 = Done (res, w2)" "world_ok fuel w2"
        "keeps_all X w w2" "tick w2 = Suc (tick w1)"
      using ipc_futex_wait_queue [OF sole l(2)] keeps_all_trans [OF l(3)] by metis
    have "\<not> expired os start_ns timeout_ns (tick w)"
      using Inl False by (simp add: expired_def)
    moreover have "res \<noteq> 0 \<and> res \<noteq> ETIMEDOUT (platform os) \<Longrightarrow> system_fails os"
      using f(1) unfolding system_fails_def by blast
    ultimately show ?thesis
      using Inl False null retry l f by (auto simp: read_wait_def give_up_def Let_def)
  qed
qed

definition read_outcome :: "u8 list set \<Rightarrow> os \<Rightarrow> u64 \<Rightarrow> u64 \<Rightarrow> world \<Rightarrow> IpcEntry \<Rightarrow> IpcChannelReadResult \<Rightarrow> IpcEntry \<Rightarrow>
    world \<Rightarrow> bool" where
  "read_outcome X os start_ns timeout_ns w out r out' w' \<longleftrightarrow>
     (case ipc_status r of
        IPC_OK \<Rightarrow> takes_oldest X w w' out'
      | IPC_ERR_TIMEOUT \<Rightarrow> pending w = [] \<and> keeps_all X w w' \<and> out' = out \<and>
          (\<exists>t. expired os start_ns timeout_ns t)
      | IPC_ERR_SYSTEM \<Rightarrow> keeps_all X w w' \<and> out' = out \<and> system_fails os
      | _ \<Rightarrow> False)"

lemma read_outcome_later:
  assumes "keeps_all X w w1" and "pending w = []" and "read_outcome X os s t w1 out r out' w'"
  shows "read_outcome X os s t w out r out' w'"
  using assms keeps_all_trans [OF assms(1)] keeps_takes [OF assms(1)]
  by (auto simp: read_outcome_def split: IpcStatus.split_asm)

lemma status_cases_lemmas:
  "is_retry_status IPC_EMPTY" "\<not> is_error_status IPC_OK" "is_error_status IPC_ERR_SYSTEM"
  "\<not> is_retry_status IPC_OK"
  by (simp_all add: is_retry_status_def is_error_status_def)

text \<open>
  One iteration: a message is taken at once, an allocation fails, or the queue was empty and the
  second half of the iteration decides.
\<close>

lemma read_loop_step:
  assumes sole: "sole_consumer X fuel os" and alloc: "allocator_ok os" and ok: "world_ok fuel w"
    and null: "payload entry = Null"
  shows "(\<exists>r dest' w'. read_loop (Suc k) (Suc n) fuel os s t error entry dest w = Done ((r, dest'), w') \<and>
      world_ok fuel w' \<and> read_outcome X os s t w dest r dest' w') \<or>
    (\<exists>w1. pending w = [] \<and> keeps_all X w w1 \<and> world_ok fuel w1 \<and> tick w < tick w1 \<and>
      (\<exists>x. clock_gettime os (Suc (tick w)) = Inl x) \<and> \<not> expired os s t (Suc (tick w)) \<and>
      read_loop (Suc k) (Suc n) fuel os s t error entry dest w =
        read_loop k (Suc n) fuel os s t error entry dest w1)"
proof -
  obtain pr pe w1 xs where pk: "peek_channel fuel os w = Done ((pr, Some pe), w1)"
    and w1: "world_ok fuel w1" "tick w1 = Suc (tick w)" "pending w1 = pending w @ xs" "set xs \<subseteq> X"
    and res: "case pending w1 of [] \<Rightarrow> ipc_status pr = IPC_EMPTY
      | m # ms \<Rightarrow> ipc_status pr = IPC_OK \<and> unat (entry_len pe) = length m"
    using peek_channel_queue [OF sole ok] by blast
  have keep: "keeps_all X w w1"
    using w1(3,4) by (auto simp: keeps_all_def)
  show ?thesis
  proof (cases "pending w1")
    case Nil
    then have st: "ipc_status pr = IPC_EMPTY" and empty: "pending w = []"
      using res w1(3) by simp_all
    have retry: "is_retry_status (ipc_status pr)"
      using st by (simp add: is_retry_status_def)
    obtain stop w2 where wt: "read_wait os s t error pr pe entry w1 = Done (stop, w2)"
      and w2: "world_ok fuel w2" "keeps_all X w1 w2" "tick w1 < tick w2"
      and cases: "case stop of
         None \<Rightarrow> (\<exists>x. clock_gettime os (tick w1) = Inl x) \<and> \<not> expired os s t (tick w1)
       | Some r \<Rightarrow> ipc_status r = IPC_ERR_TIMEOUT \<and> expired os s t (tick w1) \<or>
           ipc_status r = IPC_ERR_SYSTEM \<and> system_fails os"
      using read_wait_queue [OF sole w1(1) null retry] by blast
    have "keeps_all X w w2"
      using keep w2(2) by (rule keeps_all_trans)
    then show ?thesis
      using pk st wt w1 w2 cases empty
      by (cases stop) (auto simp: read_outcome_def Let_def)
  next
    case (Cons m ms)
    then have st: "ipc_status pr = IPC_OK"
      using res by simp
    obtain r entry' w2 where tr: "try_read (Suc n) fuel os (Some entry) w1 = Done ((r, Some entry'), w2)"
      and ok2: "world_ok fuel w2" and out: "try_outcome X os w1 entry r entry' w2"
      using try_read_queue [OF sole alloc w1(1) null] by blast
    have "ipc_status r = IPC_OK \<and> takes_oldest X w1 w2 entry' \<or>
        ipc_status r = IPC_ERR_SYSTEM \<and> keeps_all X w1 w2 \<and> entry' = entry \<and> system_fails os"
      using out Cons by (auto simp: try_outcome_def system_fails_def split: IpcStatus.split_asm)
    then show ?thesis
    proof
      assume "ipc_status r = IPC_OK \<and> takes_oldest X w1 w2 entry'"
      then show ?thesis
        using pk st tr ok2 keeps_takes [OF keep]
        by (auto simp: read_outcome_def status_cases_lemmas takes_oldest_def)
    next
      assume "ipc_status r = IPC_ERR_SYSTEM \<and> keeps_all X w1 w2 \<and> entry' = entry \<and> system_fails os"
      then show ?thesis
        using pk st tr ok2 keeps_all_trans [OF keep] null
        by (auto simp: read_outcome_def status_cases_lemmas)
    qed
  qed
qed

lemma read_loop_message:
  assumes sole: "sole_consumer X fuel os" and alloc: "allocator_ok os" and ok: "world_ok fuel w"
    and null: "payload entry = Null" and ne: "pending w \<noteq> []" and no_fail: "\<not> allocation_fails os"
  shows "\<exists>r dest' w'. read_loop 1 1 fuel os s t error entry dest w = Done ((r, dest'), w') \<and>
    ipc_status r = IPC_OK \<and> takes_oldest X w w' dest'"
proof -
  obtain pr pe w1 xs where pk: "peek_channel fuel os w = Done ((pr, Some pe), w1)"
    and w1: "world_ok fuel w1" "pending w1 = pending w @ xs" "set xs \<subseteq> X"
    and res: "case pending w1 of [] \<Rightarrow> ipc_status pr = IPC_EMPTY
      | m # ms \<Rightarrow> ipc_status pr = IPC_OK \<and> unat (entry_len pe) = length m"
    using peek_channel_queue [OF sole ok] by blast
  have keep: "keeps_all X w w1" and ne1: "pending w1 \<noteq> []"
    using w1(2,3) ne by (auto simp: keeps_all_def)
  then have st: "ipc_status pr = IPC_OK"
    using res by (simp split: list.split_asm)
  obtain r entry' w2 where tr: "try_read (Suc 0) fuel os (Some entry) w1 = Done ((r, Some entry'), w2)"
    and out: "try_outcome X os w1 entry r entry' w2"
    using try_read_queue [OF sole alloc w1(1) null] by blast
  have "ipc_status r = IPC_OK" "takes_oldest X w1 w2 entry'"
    using out ne1 no_fail by (auto simp: try_outcome_def split: IpcStatus.split_asm)
  then show ?thesis
    using pk st tr keeps_takes [OF keep]
    by (auto simp: status_cases_lemmas takes_oldest_def)
qed

lemma read_loop_queue:
  assumes sole: "sole_consumer X fuel os" and alloc: "allocator_ok os" and ok: "world_ok fuel w"
    and null: "payload entry = Null"
    and over: "over_from os s t T"
    and fuel: "T \<le> tick w + Suc k"
  shows "\<exists>r dest' w'. read_loop (Suc k) (Suc n) fuel os s t error entry dest w = Done ((r, dest'), w') \<and>
    world_ok fuel w' \<and> read_outcome X os s t w dest r dest' w'"
  using ok fuel
proof (induction k arbitrary: w)
  case 0
  then show ?case
    using read_loop_step [OF sole alloc 0(1) null, of 0 n s t error dest] over
    by (auto simp: over_from_def)
next
  case (Suc k)
  show ?case
  proof (rule disjE [OF read_loop_step [OF sole alloc Suc.prems(1) null, of "Suc k" n s t error dest]])
    assume "\<exists>w1. pending w = [] \<and> keeps_all X w w1 \<and> world_ok fuel w1 \<and> tick w < tick w1 \<and>
      (\<exists>x. clock_gettime os (Suc (tick w)) = Inl x) \<and> \<not> expired os s t (Suc (tick w)) \<and>
      read_loop (Suc (Suc k)) (Suc n) fuel os s t error entry dest w =
        read_loop (Suc k) (Suc n) fuel os s t error entry dest w1"
    then obtain w1 where w1: "pending w = []" "keeps_all X w w1" "world_ok fuel w1" "tick w < tick w1"
      and eq: "read_loop (Suc (Suc k)) (Suc n) fuel os s t error entry dest w =
        read_loop (Suc k) (Suc n) fuel os s t error entry dest w1"
      by blast
    have "T \<le> tick w1 + Suc k"
      using Suc.prems(2) w1(4) by simp
    from Suc.IH [OF w1(3) this] show ?case
      using read_outcome_later [OF w1(2,1)] unfolding eq by blast
  qed blast
qed

lemma world_ok_buffer:
  assumes "world_ok fuel w"
  obtains c where "channel w = Some c" and "channel_buffer c \<noteq> None"
  using assms by (auto simp: world_ok_def chan_ok_def)

lemma ipc_channel_read_start:
  assumes "world_ok fuel w" and "\<not> is_negative (tv_sec t)" and "\<not> is_negative (tv_nsec t)"
    and "clock_gettime os (tick w) = Inl start"
  shows "ipc_channel_read k n fuel os (Some out) (Some t) w =
    bind_run (read_loop k n fuel os (ipc_timespec_to_nanos (Some start)) (ipc_timespec_to_nanos (Some t))
        (no_read_error\<lparr>cre_timeout_used := t\<rparr>) empty_entry out (w\<lparr>tick := Suc (tick w)\<rparr>))
      (\<lambda>((r, out), w). Done ((r, Some out), w))"
proof -
  obtain c where "channel w = Some c" and "channel_buffer c \<noteq> None"
    using assms(1) by (rule world_ok_buffer)
  then show ?thesis
    using assms by (auto simp: ipc_channel_read_def Let_def)
qed

lemma pending_tick: "pending (w\<lparr>tick := t\<rparr>) = pending w"
  by (simp add: pending_def)

lemma takes_oldest_tick: "takes_oldest X (w\<lparr>tick := i\<rparr>) w' e = takes_oldest X w w' e"
  by (simp add: takes_oldest_def pending_tick)

lemma read_outcome_tick: "read_outcome X os s t (w\<lparr>tick := i\<rparr>) out r out' w' = read_outcome X os s t w out r out' w'"
  by (simp add: read_outcome_def keeps_all_tick pending_tick takes_oldest_def split: IpcStatus.split)

lemma channel_read_queue:
  assumes "sole_consumer X fuel os" and "allocator_ok os" and "world_ok fuel w"
    and "\<not> is_negative (tv_sec t)" and "\<not> is_negative (tv_nsec t)"
    and "clock_gettime os (tick w) = Inl start"
    and "over_from os (ipc_timespec_to_nanos (Some start)) (ipc_timespec_to_nanos (Some t)) T"
    and "T \<le> tick w + k"
  shows "\<exists>r out' w'. ipc_channel_read (Suc k) (Suc n) fuel os (Some out) (Some t) w =
      Done ((r, Some out'), w') \<and> world_ok fuel w' \<and>
    read_outcome X os (ipc_timespec_to_nanos (Some start)) (ipc_timespec_to_nanos (Some t)) w out r out' w'"
proof -
  let ?w = "w\<lparr>tick := Suc (tick w)\<rparr>"
  have ok: "world_ok fuel ?w"
    using assms(3) by (simp add: keeps_all_tick)
  have null: "payload empty_entry = Null"
    by (simp add: empty_entry_def)
  have fuel: "T \<le> tick ?w + Suc k"
    using assms(8) by simp
  from read_loop_queue [OF assms(1,2) ok null assms(7) fuel, of n
      "no_read_error\<lparr>cre_timeout_used := t\<rparr>" out]
  show ?thesis
    unfolding ipc_channel_read_start [OF assms(3-6)] read_outcome_tick
    by (auto simp del: read_loop.simps)
qed


definition late_os :: os where
  "late_os = solo_os\<lparr>clock_gettime := (\<lambda>t. Inl \<lparr>tv_sec = if t = 0 then 0 else 5, tv_nsec = 0\<rparr>)\<rparr>"


lemma channel_read_first:
  assumes "sole_consumer X fuel os" and "allocator_ok os" and "world_ok fuel w"
    and "\<not> is_negative (tv_sec t)" and "\<not> is_negative (tv_nsec t)"
    and "clock_gettime os (tick w) = Inl start"
    and "pending w \<noteq> []" and "\<not> allocation_fails os"
  shows "\<exists>r out' w'. ipc_channel_read 1 1 fuel os (Some out) (Some t) w = Done ((r, Some out'), w') \<and>
    ipc_status r = IPC_OK \<and> takes_oldest X w w' out'"
proof -
  let ?w = "w\<lparr>tick := Suc (tick w)\<rparr>"
  have ok: "world_ok fuel ?w" and ne: "pending ?w \<noteq> []"
    using assms(3,7) by (simp_all add: keeps_all_tick pending_tick)
  have null: "payload empty_entry = Null"
    by (simp add: empty_entry_def)
  from read_loop_message [OF assms(1,2) ok null ne assms(8), of "ipc_timespec_to_nanos (Some start)"
      "ipc_timespec_to_nanos (Some t)" "no_read_error\<lparr>cre_timeout_used := t\<rparr>" out]
  show ?thesis
    unfolding ipc_channel_read_start [OF assms(3-6)]
    by (auto simp: takes_oldest_tick simp del: read_loop.simps)
qed

text \<open>
  A reader never waits for a message that is already there: if the queue is not empty at the
  call, no allocation fails and the clock can be read once, \<open>ipc_channel_read\<close> takes the oldest
  message in its first iteration, whatever the timeout and the later behaviour of the clock.
\<close>

theorem channel_read_immediate:
  assumes "sole_consumer X fuel os" and "allocator_ok os" and "world_ok fuel w"
    and "\<not> is_negative (tv_sec t)" and "\<not> is_negative (tv_nsec t)"
    and "clock_gettime os (tick w) = Inl start"
    and "pending w \<noteq> []" and "\<not> allocation_fails os"
  shows "\<exists>r out' w'. ipc_channel_read 1 1 fuel os (Some out) (Some t) w = Done ((r, Some out'), w') \<and>
    ipc_status r = IPC_OK \<and> takes_oldest X w w' out'"
  using assms by (rule channel_read_first)

theorem channel_read_immediate_witness:
  "\<exists>r out' w'. ipc_channel_read 1 1 200 solo_os (Some empty_entry) (Some \<lparr>tv_sec = 0, tv_nsec = 0\<rparr>)
      (world_of (channel_of one_message)) = Done ((r, Some out'), w') \<and>
    ipc_status r = IPC_OK \<and> payload out' = Own [1, 2, 3] \<and> pending w' = []"
proof -
  have t: "\<not> is_negative (tv_sec \<lparr>tv_sec = 0, tv_nsec = 0\<rparr>)" "\<not> is_negative (tv_nsec \<lparr>tv_sec = 0, tv_nsec = 0\<rparr>)"
    by (simp_all add: is_negative_def)
  have ne: "pending (world_of (channel_of one_message)) \<noteq> []"
    by (simp add: sample_channels)
  show ?thesis
    using channel_read_immediate [OF solo_os_facts(1,2) sample_channels(1) t solo_os_facts(4) ne
        solo_os_facts(3), of empty_entry] sample_channels(2)
    by (auto simp: takes_oldest_def)
qed

section \<open>Heap blocks of the reading operations\<close>

text \<open>
  \<open>ipc_channel_try_read\<close> leaks nothing and keeps nothing, whatever the other threads, the
  allocator and the system do: on \<open>IPC_OK\<close> exactly one new heap block exists and the caller's
  entry points to it; otherwise the caller's entry is untouched and every block allocated on the
  way has been freed.
\<close>

theorem channel_try_read_no_leak:
  assumes "ipc_channel_try_read n fuel os (Some out) w = Done ((r, e), w')"
  shows "\<exists>out'. e = Some out' \<and>
    (if ipc_status r = IPC_OK then blocks (payload out') = 1 \<and> live w' = live w + 1
     else out' = out \<and> live w' = live w)"
proof -
  have empty: "on_heap (payload empty_entry)" "blocks (payload empty_entry) = 0"
    by (simp_all add: empty_entry_def)
  show ?thesis
    using assms
    by (auto simp: ipc_channel_try_read_def Let_def empty elim!: run_elims
        dest!: try_read_blocks free_payload_blocks split: option.split_asm if_split_asm)
qed

theorem channel_try_read_no_leak_witness:
  "\<exists>r out' w'. ipc_channel_try_read 1 200 solo_os (Some empty_entry) (world_of (channel_of one_message)) =
      Done ((r, Some out'), w') \<and> live w' = blocks (payload out')"
proof -
  obtain r out' w' where run: "ipc_channel_try_read (Suc 0) 200 solo_os (Some empty_entry)
      (world_of (channel_of one_message)) = Done ((r, Some out'), w')"
    using channel_try_read_queue [OF solo_os_facts(1,2) sample_channels(1), of 0 empty_entry] by blast
  then show ?thesis
    using channel_try_read_no_leak [OF run]
    by (auto simp: world_of_def empty_entry_def split: if_split_asm)
qed

lemma channel_read_blocks:
  assumes "ipc_channel_read k n fuel os (Some out) timeout w = Done ((r, e), w')"
  shows "\<exists>out'. e = Some out' \<and>
    (ipc_status r = IPC_OK \<and> blocks (payload out') = 1 \<and> live w' = live w + 1 \<or>
     out' = out \<and> live w' = live w)"
proof -
  have empty: "on_heap (payload empty_entry)" "blocks (payload empty_entry) = 0"
    by (simp_all add: empty_entry_def)
  show ?thesis
    using assms
    by (auto simp: ipc_channel_read_def Let_def empty settled_def elim!: run_elims
        dest!: read_loop_blocks [where held = "live w"]
        split: option.split_asm if_split_asm sum.split_asm)
qed

text \<open>
  C25. \<open>ipc_channel_read\<close> leaks nothing, whatever the other threads, the clock, the futex and the
  allocator do: when it returns, either one new heap block exists and the caller's entry points
  to it, with status \<open>IPC_OK\<close>, or the caller's entry is untouched and every block allocated on the
  way has been freed.
\<close>

theorem channel_read_no_leak:
  assumes "ipc_channel_read k n fuel os (Some out) timeout w = Done ((r, e), w')"
  shows "\<exists>out'. e = Some out' \<and>
    (ipc_status r = IPC_OK \<and> blocks (payload out') = 1 \<and> live w' = live w + 1 \<or>
     out' = out \<and> live w' = live w)"
  using assms by (rule channel_read_blocks)

theorem channel_read_no_leak_witness:
  "\<exists>r out' w'. ipc_channel_read 1 1 200 solo_os (Some empty_entry) (Some \<lparr>tv_sec = 0, tv_nsec = 0\<rparr>)
      (world_of (channel_of one_message)) = Done ((r, Some out'), w') \<and> live w' = blocks (payload out')"
proof -
  have t: "\<not> is_negative (tv_sec \<lparr>tv_sec = 0, tv_nsec = 0\<rparr>)" "\<not> is_negative (tv_nsec \<lparr>tv_sec = 0, tv_nsec = 0\<rparr>)"
    by (simp_all add: is_negative_def)
  have ne: "pending (world_of (channel_of one_message)) \<noteq> []"
    by (simp add: sample_channels)
  obtain r out' w' where run: "ipc_channel_read 1 1 200 solo_os (Some empty_entry)
      (Some \<lparr>tv_sec = 0, tv_nsec = 0\<rparr>) (world_of (channel_of one_message)) = Done ((r, Some out'), w')"
    using channel_read_first [OF solo_os_facts(1,2) sample_channels(1) t solo_os_facts(4) ne
        solo_os_facts(3), of empty_entry] by blast
  then show ?thesis
    using channel_read_no_leak [OF run] by (auto simp: world_of_def empty_entry_def)
qed

end
