(* ===== verification/Channel_Object.thy ===== *)
theory Channel_Object
  imports Buffer_Object Channel_Spec
begin

text \<open>
  \<open>ipc_channel_create\<close>, \<open>ipc_channel_connect\<close> and \<open>ipc_channel_destroy\<close> of
  \<^verbatim>\<open>core/src/ipc_channel.c\<close>. In memory a channel is its header, the 4-byte \<open>notify\<close> in a cache line
  of 64 bytes, followed by a ring buffer; a process reaches it through two handles, the channel
  and the buffer.
\<close>

section \<open>The channel behind a handle\<close>

definition load_u32 :: "u8 list \<Rightarrow> nat \<Rightarrow> u32 option" where
  "load_u32 d p = map_option (\<lambda>bs. word_of_nat (le_nat bs)) (read_bytes d p 4)"

definition u32_bytes :: "u32 \<Rightarrow> u8 list" where
  "u32_bytes x = nat_le 4 (unat x)"

lemma u32_round_trip: "word_of_nat (le_nat (u32_bytes x)) = x"
proof -
  have "unat x < 256 ^ 4"
    using unsigned_less [of x] by simp
  then show ?thesis
    by (simp add: u32_bytes_def le_nat_nat_le)
qed

definition channel_view :: "store \<Rightarrow> channel_handle \<Rightarrow> IpcChannel option" where
  "channel_view s p = do {
     d \<leftarrow> bytes_at (channel_header_ptr p) s;
     v \<leftarrow> load_u32 d 0;
     h \<leftarrow> buffer_object s (buffer_ptr p);
     b \<leftarrow> buffer_view s h;
     Some \<lparr>notify = v, channel_buffer = Some b\<rparr>
   }"

definition channel_object :: "store \<Rightarrow> ptr \<Rightarrow> channel_handle option" where
  "channel_object s p = (case p of
     NULL \<Rightarrow> None
   | Ptr a off \<Rightarrow>
       if off \<noteq> 0 then None
       else (case objects s a of Some (Channel_Obj h) \<Rightarrow> Some h | _ \<Rightarrow> None))"

section \<open>Create\<close>

record IpcChannelOpenError =
  coe_requested_size :: u64
  coe_min_size :: u64
  coe_sys_errno :: u32

type_synonym IpcChannelOpenResult = "(ptr, IpcChannelOpenError) ipc_result"

definition ipc_channel_create :: "ptr \<Rightarrow> u64 \<Rightarrow> store \<Rightarrow> (IpcChannelOpenResult \<times> store) run" where
  "ipc_channel_create mem n s =
     (let min_total = ipc_channel_get_memory_overhead;
          error = \<lparr>coe_requested_size = n, coe_min_size = min_total, coe_sys_errno = 0\<rparr>
      in if mem = NULL then
           Done (result_error_body IPC_ERR_INVALID_ARGUMENT ''invalid argument: mem is NULL'' error, s)
         else if n = 0 then
           Done (result_error_body IPC_ERR_INVALID_ARGUMENT ''invalid argument: buffer size is 0'' error, s)
         else
           let buffer_memory = ptr_add mem (unat CHANNEL_HEADER_SIZE_ALIGNED)
           in bind_run (ipc_buffer_create buffer_memory (n - CHANNEL_HEADER_SIZE_ALIGNED) s)
                (\<lambda>(buffer_result, s).
              if is_error buffer_result then
                access (error_body buffer_result) (\<lambda>b.
                access (error_detail buffer_result) (\<lambda>d.
                  Done (result_error_body (ipc_status buffer_result) d
                    (error\<lparr>coe_requested_size := n, coe_sys_errno := bce_sys_errno b\<rparr>), s)))
              else
                access (union_result (content buffer_result)) (\<lambda>buffer.
                  case malloc (Channel_Obj \<lparr>channel_header_ptr = mem, buffer_ptr = buffer\<rparr>) s of
                     (NULL, s) \<Rightarrow>
                       access (free buffer s) (\<lambda>s.
                         Done (result_error_body IPC_ERR_SYSTEM ''system error: channel allocation failed''
                           (error\<lparr>coe_sys_errno := errno s, coe_requested_size := n\<rparr>), s))
                   | (ch, s) \<Rightarrow>
                       access (store_at mem (u32_bytes 0) s) (\<lambda>s. Done (result_ok IPC_OK ch, s)))))"

section \<open>Connect\<close>

record IpcChannelConnectError =
  cce_sys_errno :: u32
  cce_min_size :: u64

type_synonym IpcChannelConnectResult = "(ptr, IpcChannelConnectError) ipc_result"

text \<open>The handle is allocated before its fields are known; they are set once both calls have succeeded.\<close>

definition ipc_channel_connect :: "ptr \<Rightarrow> store \<Rightarrow> (IpcChannelConnectResult \<times> store) run" where
  "ipc_channel_connect mem s =
     (let min_total = ipc_channel_get_memory_overhead;
          error = \<lparr>cce_sys_errno = 0, cce_min_size = min_total\<rparr>
      in if mem = NULL then
           Done (result_error_body IPC_ERR_INVALID_ARGUMENT ''invalid argument: mem is NULL'' error, s)
         else
           (case malloc (Channel_Obj \<lparr>channel_header_ptr = NULL, buffer_ptr = NULL\<rparr>) s of
              (NULL, s) \<Rightarrow>
                Done (result_error_body IPC_ERR_SYSTEM ''system error: channel allocation failed''
                  (error\<lparr>cce_sys_errno := errno s\<rparr>), s)
            | (ch, s) \<Rightarrow>
                let (buffer_result, s) = ipc_buffer_attach (ptr_add mem (unat CHANNEL_HEADER_SIZE_ALIGNED)) s
                in if is_error buffer_result then
                     access (free ch s) (\<lambda>s.
                     access (error_detail buffer_result) (\<lambda>d.
                       Done (result_error_body (ipc_status buffer_result) d error, s)))
                   else
                     access (union_result (content buffer_result)) (\<lambda>buffer.
                     access (set_object ch
                         (Channel_Obj \<lparr>channel_header_ptr = mem, buffer_ptr = buffer\<rparr>) s)
                       (\<lambda>s. Done (result_ok IPC_OK ch, s)))))"

section \<open>Destroy\<close>

record IpcChannelDestroyError =
  cde_unit :: bool

type_synonym IpcChannelDestroyResult = "(unit, IpcChannelDestroyError) ipc_result"

definition ipc_channel_destroy :: "ptr \<Rightarrow> store \<Rightarrow> (IpcChannelDestroyResult \<times> store) run" where
  "ipc_channel_destroy p s =
     (let error = \<lparr>cde_unit = False\<rparr>
      in if p = NULL then
           Done (result_error_body IPC_ERR_INVALID_ARGUMENT ''invalid argument: channel is NULL'' error, s)
         else access (channel_object s p) (\<lambda>h.
           if buffer_ptr h = NULL then
             Done (result_error_body IPC_ERR_ILLEGAL_STATE ''illegal state: channel->buffer is NULL'' error, s)
           else
             access (free (buffer_ptr h) s) (\<lambda>s.
             access (free p s) (\<lambda>s.
               Done (result_ok IPC_OK (), s)))))"

section \<open>Facts on objects\<close>

lemma overhead_192: "ipc_channel_get_memory_overhead = 192"
  and header_64: "CHANNEL_HEADER_SIZE_ALIGNED = 64"
  and min_size_200: "ipc_channel_get_min_size = 200"
  by (simp_all add: ipc_channel_get_memory_overhead_def CHANNEL_HEADER_SIZE_ALIGNED_def
      ipc_channel_get_min_size_def ipc_buffer_get_min_size_def ipc_buffer_get_memory_overhead_def
      ALIGN_UP_BY_CACHE_LINE_def ALIGN_UP_def CACHE_LINE_SIZE_def sizeof_IpcChannelHeader_def
      BUFFER_HEADER_SIZE_ALIGNED_def IPC_DATA_ALIGN_def)

lemma channel_object_Some_iff:
  "channel_object s p = Some h \<longleftrightarrow> (\<exists>a. p = Ptr a 0 \<and> objects s a = Some (Channel_Obj h))"
  by (cases p) (auto simp: channel_object_def split: option.splits cobject.splits)

text \<open>The bytes before a buffer may be written without changing the buffer.\<close>

lemma buffer_view_write_before:
  assumes "object_bytes s a = Some d" and "write_bytes d p bs = Some d'" and "p + length bs \<le> off"
  shows "buffer_view (s\<lparr>objects := (objects s)(a \<mapsto> Bytes d')\<rparr>) (buffer_handle_at (Ptr a off)) =
    buffer_view s (buffer_handle_at (Ptr a off))"
proof -
  have "drop off d' = drop off d"
    using assms(2,3) by (rule drop_write_bytes_before)
  moreover have "drop (off + m) d' = drop (off + m) d" for m
    using drop_write_bytes_before [OF assms(2), of "off + m"] assms(3) by simp
  ultimately show ?thesis
    using assms(1) by (simp add: buffer_view_def buffer_handle_at_def object_bytes_def)
qed

text \<open>What a successful creation or connection leaves.\<close>

definition channel_opened :: "ptr \<Rightarrow> store \<Rightarrow> ptr \<Rightarrow> store \<Rightarrow> bool" where
  "channel_opened mem s p s' \<longleftrightarrow>
     (\<exists>q h. channel_object s' p = Some \<lparr>channel_header_ptr = mem, buffer_ptr = q\<rparr> \<and>
        buffer_object s' q = Some h \<and> h = buffer_handle_at (ptr_add mem 64) \<and>
        {p, q} = {Ptr (fresh s) 0, Ptr (Suc (fresh s)) 0} \<and>
        dom (objects s') = dom (objects s) \<union> {fresh s, Suc (fresh s)})"

lemma channel_create_checks:
  assumes "n \<noteq> 0"
  shows "ipc_channel_create (Ptr a off) n s =
    bind_run (ipc_buffer_create (Ptr a (off + 64)) (n - 64) s) (\<lambda>(buffer_result, s).
      if is_error buffer_result then
        access (error_body buffer_result) (\<lambda>b.
        access (error_detail buffer_result) (\<lambda>d.
          Done (result_error_body (ipc_status buffer_result) d
            \<lparr>coe_requested_size = n, coe_min_size = 192, coe_sys_errno = bce_sys_errno b\<rparr>, s)))
      else
        access (union_result (content buffer_result)) (\<lambda>buffer.
          case malloc (Channel_Obj \<lparr>channel_header_ptr = Ptr a off, buffer_ptr = buffer\<rparr>) s of
             (NULL, s) \<Rightarrow>
               access (free buffer s) (\<lambda>s.
                 Done (result_error_body IPC_ERR_SYSTEM ''system error: channel allocation failed''
                   \<lparr>coe_requested_size = n, coe_min_size = 192, coe_sys_errno = errno s\<rparr>, s))
           | (ch, s) \<Rightarrow>
               access (store_at (Ptr a off) (u32_bytes 0) s) (\<lambda>s. Done (result_ok IPC_OK ch, s))))"
  using assms
  by (simp add: ipc_channel_create_def overhead_192 header_64 Let_def cong: if_cong prod.case_cong ptr.case_cong)

definition second_malloc_fails :: "store \<Rightarrow> bool" where
  "second_malloc_fails s \<longleftrightarrow> malloc_fails (s\<lparr>script := tl (script s)\<rparr>)"

lemma malloc_fails_script: "script s' = tl (script s) \<Longrightarrow> malloc_fails s' = second_malloc_fails s"
  by (simp add: malloc_fails_def second_malloc_fails_def)

lemma channel_size_minus:
  fixes n :: u64
  assumes "unat n = 192 + 2 ^ k"
  shows "n \<noteq> 0" and "unat (n - 64) = 128 + 2 ^ k"
proof -
  show "n \<noteq> 0"
    using assms by auto
  show "unat (n - 64) = 128 + 2 ^ k"
    using unat_diff_le [of 64 n] assms by simp
qed

lemma channel_create_no_memory:
  assumes ok: "store_ok s" and d: "object_bytes s a = Some d" and room: "off + unat n \<le> length d"
    and n: "unat n = 192 + 2 ^ k" and m: "malloc_fails s \<or> second_malloc_fails s"
  shows "\<exists>r s'. ipc_channel_create (Ptr a off) n s = Done (r, s') \<and> ipc_status r = IPC_ERR_SYSTEM \<and>
    dom (objects s') = dom (objects s)"
proof (cases "malloc_fails s")
  case True
  have "k < 64"
    using n unat_lt_two64 [of n] by (intro pow2_less_two64) simp
  then have "unat (n - 64) \<le> 128 + 9223372036854775808"
    using pow2_le_2p63 [of k] channel_size_minus(2) [OF n] by simp
  then show ?thesis
    using create_size_checks [of "n - 64" a "off + 64" s] channel_size_minus [OF n] True
    by (simp add: channel_create_checks malloc_def is_error_iff)
next
  case False
  have room': "off + 64 + unat (n - 64) \<le> length d"
    using room n channel_size_minus(2) [OF n] by simp
  obtain s1 where create: "ipc_buffer_create (Ptr a (off + 64)) (n - 64) s =
      Done (result_ok IPC_OK (Ptr (fresh s) 0), s1)"
    and cr: "created (Ptr a (off + 64)) (n - 64) s s1"
    by (rule create_succeeds [OF ok d room' channel_size_minus(2) [OF n] False])
  have fails: "malloc_fails s1"
    using malloc_fails_script [of s1 s] cr m False by (simp add: created_def)
  have obj: "objects s1 (fresh s) = Some (Buffer_Obj (buffer_handle_at (Ptr a (off + 64))))"
    and dom: "dom (objects s1) = insert (fresh s) (dom (objects s))"
    using cr by (simp_all add: created_def buffer_object_Some_iff)
  have "fresh s \<notin> dom (objects s)"
    using store_ok_fresh [OF ok] by (simp add: domIff)
  then have "dom ((objects s1)(fresh s := None)) = dom (objects s)"
    using dom by auto
  then show ?thesis
    using create fails obj channel_size_minus(1) [OF n]
    by (simp add: channel_create_checks malloc_def is_error_iff)
qed

lemma channel_create_succeeds:
  assumes ok: "store_ok s" and d: "object_bytes s a = Some d" and room: "off + unat n \<le> length d"
    and n: "unat n = 192 + 2 ^ k" and m: "\<not> malloc_fails s" "\<not> second_malloc_fails s"
  obtains p s' c where "ipc_channel_create (Ptr a off) n s = Done (result_ok IPC_OK p, s')"
    and "channel_opened (Ptr a off) s p s'"
    and "channel_view s' \<lparr>channel_header_ptr = Ptr a off, buffer_ptr = Ptr (fresh s) 0\<rparr> = Some c"
    and "channel_object s' p = Some \<lparr>channel_header_ptr = Ptr a off, buffer_ptr = Ptr (fresh s) 0\<rparr>"
    and "notify c = 0" and "chan_messages c = []" and "chan_ok (Suc (2 ^ k)) c"
    and "\<exists>b. channel_buffer c = Some b \<and> capacity b = 2 ^ k" and "\<exists>d'. object_bytes s' a = Some d'"
proof -
  let ?h = "buffer_handle_at (Ptr a (off + 64))" and ?p = "Ptr (Suc (fresh s)) 0"
  let ?ch = "\<lparr>channel_header_ptr = Ptr a off, buffer_ptr = Ptr (fresh s) 0\<rparr>"
  have room': "off + 64 + unat (n - 64) \<le> length d"
    using room n channel_size_minus(2) [OF n] by simp
  obtain s1 where create: "ipc_buffer_create (Ptr a (off + 64)) (n - 64) s =
      Done (result_ok IPC_OK (Ptr (fresh s) 0), s1)"
    and cr: "created (Ptr a (off + 64)) (n - 64) s s1"
    by (rule create_succeeds [OF ok d room' channel_size_minus(2) [OF n] m(1)])
  have fr: "fresh s1 = Suc (fresh s)" and dom1: "dom (objects s1) = insert (fresh s) (dom (objects s))"
    and obj: "objects s1 (fresh s) = Some (Buffer_Obj ?h)"
    using cr by (simp_all add: created_def buffer_object_Some_iff)
  obtain b where b: "buffer_view s1 ?h = Some b" "buffer_inv b" "messages b = []" "capacity b = 2 ^ k"
    using cr channel_size_minus(2) [OF n] by (auto simp: created_def)
  have "ring_ok b"
    using b(2) by (simp add: buffer_inv_def)
  with b(1) obtain d1 where d1: "object_bytes s1 a = Some d1" "off + 64 + 128 \<le> length d1"
    by (rule buffer_view_bounds)
  let ?s2 = "s1\<lparr>objects := (objects s1)(fresh s1 \<mapsto> Channel_Obj ?ch), fresh := Suc (fresh s1),
      script := tl (script s1)\<rparr>"
  have "\<not> malloc_fails s1"
    using malloc_fails_script [of s1 s] cr m(2) by (simp add: created_def)
  then have malloc: "malloc (Channel_Obj ?ch) s1 = (?p, ?s2)"
    using fr by (simp add: malloc_def)
  note d2 = store_ok_malloc [OF created_store_ok [OF cr ok] d1(1)]
  obtain d3 where d3: "write_bytes d1 off (u32_bytes 0) = Some d3"
    using d1(2) by (auto simp: write_bytes_def u32_bytes_def)
  let ?s3 = "?s2\<lparr>objects := (objects ?s2)(a \<mapsto> Bytes d3)\<rparr>"
  have run: "ipc_channel_create (Ptr a off) n s = Done (result_ok IPC_OK ?p, ?s3)"
    using create malloc d2(1) d3 channel_size_minus(1) [OF n]
    by (simp add: channel_create_checks is_error_iff)
  have view: "buffer_view ?s3 ?h = Some b"
    using buffer_view_write_before [OF d2(1) d3, of "off + 64"] buffer_view_cong [of ?s2 a s1 "off + 64"]
      d1(1) d2(1) b(1) by (simp add: u32_bytes_def)
  have ne: "a \<noteq> fresh s" "a \<noteq> Suc (fresh s)"
    using d1(1) obj d2(2) fr by (auto simp: object_bytes_def)
  have "load_u32 d3 off = Some 0"
    using read_bytes_write_same [OF d3] u32_round_trip [of 0] by (simp add: load_u32_def u32_bytes_def)
  then have cv: "channel_view ?s3 ?ch = Some \<lparr>notify = 0, channel_buffer = Some b\<rparr>"
    using view obj ne length_write_bytes [OF d3] d1(2) fr
    by (simp add: channel_view_def object_bytes_def load_u32_def read_bytes_def buffer_object_def)
  have ch: "channel_object ?s3 ?p = Some ?ch" and bo: "buffer_object ?s3 (Ptr (fresh s) 0) = Some ?h"
    using ne obj fr by (simp_all add: channel_object_Some_iff buffer_object_Some_iff)
  have "dom (objects ?s3) = dom (objects s) \<union> {fresh s, Suc (fresh s)}"
    using dom1 d1(1) fr by (auto simp: object_bytes_def split: option.split_asm)
  moreover have "?h = buffer_handle_at (ptr_add (Ptr a off) 64)"
    by simp
  ultimately have opened: "channel_opened (Ptr a off) s ?p ?s3"
    unfolding channel_opened_def using ch bo insert_commute [of ?p "Ptr (fresh s) 0" "{}"] by blast
  have "notify \<lparr>notify = 0, channel_buffer = Some b\<rparr> = 0"
    by simp
  moreover have "chan_messages \<lparr>notify = 0, channel_buffer = Some b\<rparr> = []"
    using b by (simp add: chan_messages_def)
  moreover have "chan_ok (Suc (2 ^ k)) \<lparr>notify = 0, channel_buffer = Some b\<rparr>"
    using b by (simp add: chan_ok_def)
  moreover have "\<exists>b'. channel_buffer \<lparr>notify = 0, channel_buffer = Some b\<rparr> = Some b' \<and> capacity b' = 2 ^ k"
    using b by simp
  moreover have "\<exists>d'. object_bytes ?s3 a = Some d'"
    by (simp add: object_bytes_def)
  ultimately show ?thesis
    by (rule that [OF run opened cv ch])
qed

text \<open>
  C29. \<open>ipc_channel_create\<close> for every size it returns for: unless the size is the 192 bytes of
  overhead plus a power of two it returns \<open>IPC_ERR_INVALID_ARGUMENT\<close> and touches nothing; where
  either allocation fails it returns \<open>IPC_ERR_SYSTEM\<close> and no handle is left; otherwise exactly two
  handles are new, and through the returned one an empty well-formed channel is seen, its counter
  0, whatever the memory held before.
\<close>

theorem channel_create_on_every_branch:
  assumes "store_ok s" and "object_bytes s a = Some d" and "off + unat n \<le> length d"
    and "n = 0 \<or> 64 \<le> unat n" and "unat n \<le> 192 + 9223372036854775808"
  shows "\<exists>r s'. ipc_channel_create (Ptr a off) n s = Done (r, s') \<and>
    (if \<not> (\<exists>k. unat n = 192 + 2 ^ k) then ipc_status r = IPC_ERR_INVALID_ARGUMENT \<and> s' = s
     else if malloc_fails s \<or> second_malloc_fails s
     then ipc_status r = IPC_ERR_SYSTEM \<and> dom (objects s') = dom (objects s)
     else \<exists>p h c. r = result_ok IPC_OK p \<and> channel_opened (Ptr a off) s p s' \<and>
       channel_object s' p = Some h \<and> channel_view s' h = Some c \<and> notify c = 0 \<and>
       chan_messages c = [] \<and> chan_ok (unat n) c)"
proof (cases "\<exists>k. unat n = 192 + 2 ^ k")
  case False
  show ?thesis
  proof (cases "n = 0")
    case True
    then show ?thesis
      using False by (simp add: ipc_channel_create_def)
  next
    case nz: False
    then have u: "unat (n - 64) = unat n - 64"
      using assms(4) unat_diff_le [of 64 n] by simp
    have "unat n = 192 + 2 ^ k" if "unat (n - 64) = 128 + 2 ^ k" for k
      using that u assms(4) nz by simp
    then have "\<not> (\<exists>k. unat (n - 64) = 128 + 2 ^ k)"
      using False by blast
    moreover have "unat (n - 64) \<le> 128 + 9223372036854775808"
      using u assms(5) by simp
    ultimately show ?thesis
      using create_size_checks [of "n - 64" a "off + 64" s] nz False
      by (simp add: channel_create_checks is_error_iff)
  qed
next
  case True
  then obtain k where k: "unat n = 192 + 2 ^ k" ..
  show ?thesis
  proof (cases "malloc_fails s \<or> second_malloc_fails s")
    case True
    then show ?thesis
      using channel_create_no_memory [OF assms(1-3) k True] k by auto
  next
    case False
    then have m: "\<not> malloc_fails s" "\<not> second_malloc_fails s"
      by simp_all
    obtain p s' c where run: "ipc_channel_create (Ptr a off) n s = Done (result_ok IPC_OK p, s')"
      and res: "channel_opened (Ptr a off) s p s'"
        "channel_view s' \<lparr>channel_header_ptr = Ptr a off, buffer_ptr = Ptr (fresh s) 0\<rparr> = Some c"
        "channel_object s' p = Some \<lparr>channel_header_ptr = Ptr a off, buffer_ptr = Ptr (fresh s) 0\<rparr>"
        "notify c = 0" "chan_messages c = []" "chan_ok (Suc (2 ^ k)) c"
      by (rule channel_create_succeeds [OF assms(1-3) k m])
    have "chan_ok (unat n) c"
      using res(6) k by (auto simp: chan_ok_def)
    then show ?thesis
      using run res k False by (intro exI [of _ "result_ok IPC_OK p"] exI [of _ s']) auto
  qed
qed

definition wide_store :: "bool list \<Rightarrow> store" where
  "wide_store scr =
     \<lparr>objects = [0 \<mapsto> Bytes (replicate 320 255)], fresh = 1, script = scr, errno = 0\<rparr>"

lemma wide_store_facts:
  "store_ok (wide_store scr)" "object_bytes (wide_store scr) 0 = Some (replicate 320 255)"
  "malloc_fails (wide_store scr) \<longleftrightarrow> scr \<noteq> [] \<and> hd scr"
  "second_malloc_fails (wide_store scr) \<longleftrightarrow> tl scr \<noteq> [] \<and> hd (tl scr)"
  "dom (objects (wide_store scr)) = {0}" "script (wide_store scr) = scr"
  by (auto simp: store_ok_def wide_store_def object_bytes_def malloc_fails_def
      second_malloc_fails_def)

lemma size_320: "\<exists>k. (320 :: nat) = 192 + 2 ^ k"
  by (rule exI [of _ 7]) simp

theorem channel_create_on_every_branch_witness:
  "\<exists>r s'. ipc_channel_create (Ptr 0 0) 320 (wide_store [False, True]) = Done (r, s') \<and>
    ipc_status r = IPC_ERR_SYSTEM \<and> dom (objects s') = {0}"
  using channel_create_on_every_branch [of "wide_store [False, True]" 0 "replicate 320 255" 0 320]
    size_320 by (auto simp: wide_store_facts split: if_split_asm)

text \<open>
  C30. When \<open>ipc_channel_create\<close> does not return: a size from 1 to 63 is smaller than the channel
  header, \<open>size - 64\<close> wraps around and the power-of-two test of the ring buffer never ends, as it
  does for sizes above \<open>2\<^sup>6\<^sup>3 + 192\<close>. It returns for every other size.
\<close>

theorem channel_create_hangs:
  "ipc_channel_create (Ptr a off) n s = Timeout \<longleftrightarrow>
     0 < unat n \<and> unat n < 64 \<or> 192 + 9223372036854775808 < unat n"
proof (cases "n = 0")
  case True
  then show ?thesis
    by (simp add: ipc_channel_create_def)
next
  case False
  have u: "unat (n - 64) = (if unat n < 64 then two64 - 64 + unat n else unat n - 64)"
    by (simp add: unat_sub_if')
  have "ipc_channel_create (Ptr a off) n s = Timeout \<longleftrightarrow>
      128 + 9223372036854775808 < unat (n - 64)"
  proof (cases "128 + 9223372036854775808 < unat (n - 64)")
    case True
    then have "unat (n - 64 - 128) = unat (n - 64) - 128"
      using unat_diff_le [of 128 "n - 64"] by simp
    then have "is_power_of_2 (n - 64 - 128) = None"
      using True by (intro is_power_of_2_diverges) simp
    then have "ipc_buffer_create (Ptr a (off + 64)) (n - 64) s = Timeout"
      using True by (simp add: ipc_buffer_create_def BUFFER_HEADER_SIZE_ALIGNED_def word_less_nat_alt)
    then show ?thesis
      using True False by (simp add: channel_create_checks)
  next
    case small: False
    then have "ipc_buffer_create (Ptr a (off + 64)) (n - 64) s \<noteq> Timeout"
      using create_size_checks [of "n - 64" a "off + 64" s]
      by (auto simp: access_eq_Timeout_iff split: prod.splits ptr.splits)
    then show ?thesis
      using small False
      by (auto simp: channel_create_checks bind_run_eq_Timeout_iff access_eq_Timeout_iff
          split: prod.splits ptr.splits if_splits)
  qed
  moreover have "0 < unat n"
    using False by (simp add: unat_gt_0)
  ultimately show ?thesis
    using u unat_lt_two64 [of n] by (auto split: if_splits)
qed

section \<open>Connecting and destroying\<close>

lemma channel_connect_cases:
  assumes ok: "store_ok s"
  shows "\<exists>r s'. ipc_channel_connect (Ptr a off) s = Done (r, s') \<and>
    (if malloc_fails s \<or> second_malloc_fails s
     then ipc_status r = IPC_ERR_SYSTEM \<and> objects s' = objects s
     else r = result_ok IPC_OK (Ptr (fresh s) 0) \<and> channel_opened (Ptr a off) s (Ptr (fresh s) 0) s' \<and>
       fresh s' = Suc (Suc (fresh s)) \<and>
       (\<forall>c < fresh s. objects s' c = objects s c))"
proof (cases "malloc_fails s")
  case True
  then show ?thesis
    by (simp add: ipc_channel_connect_def malloc_def Let_def)
next
  case False
  let ?s1 = "s\<lparr>objects := (objects s)(fresh s \<mapsto> Channel_Obj \<lparr>channel_header_ptr = NULL, buffer_ptr = NULL\<rparr>),
      fresh := Suc (fresh s), script := tl (script s)\<rparr>"
  have second: "malloc_fails ?s1 \<longleftrightarrow> second_malloc_fails s"
    by (rule malloc_fails_script) simp
  show ?thesis
  proof (cases "second_malloc_fails s")
    case True
    then show ?thesis
      using False second store_ok_fresh [OF ok]
      by (auto simp: ipc_channel_connect_def ipc_buffer_attach_def malloc_def is_error_iff Let_def)
  next
    case second_ok: False
    then show ?thesis
      using False second ok
      by (auto simp: ipc_channel_connect_def attach_succeeds malloc_def is_error_iff Let_def
          set_object_def header_64 channel_opened_def channel_object_def buffer_object_def)
  qed
qed

text \<open>
  C31. \<open>ipc_channel_connect\<close>: with \<open>NULL\<close> it returns \<open>IPC_ERR_INVALID_ARGUMENT\<close>; where either
  allocation fails it returns \<open>IPC_ERR_SYSTEM\<close> and every object is as before; otherwise the two
  handles are the only new objects, the returned one leads to the given memory, and nothing that
  existed before has changed, the shared memory included.
\<close>

theorem channel_connect_on_every_branch:
  assumes "store_ok s"
  shows "(\<exists>r. ipc_channel_connect NULL s = Done (r, s) \<and> ipc_status r = IPC_ERR_INVALID_ARGUMENT) \<and>
    (\<exists>r s'. ipc_channel_connect (Ptr a off) s = Done (r, s') \<and>
      (if malloc_fails s \<or> second_malloc_fails s
       then ipc_status r = IPC_ERR_SYSTEM \<and> objects s' = objects s
       else \<exists>p. r = result_ok IPC_OK p \<and> channel_opened (Ptr a off) s p s' \<and>
         (\<forall>c. objects s c \<noteq> None \<longrightarrow> objects s' c = objects s c)))"
proof -
  have "c < fresh s" if "objects s c \<noteq> None" for c
    using assms that by (auto simp: store_ok_def not_le [symmetric])
  then show ?thesis
    using channel_connect_cases [OF assms, of a off]
    by (auto simp: ipc_channel_connect_def Let_def split: if_split_asm)
qed

theorem channel_connect_on_every_branch_witness:
  "\<exists>p s'. ipc_channel_connect (Ptr 0 0) (wide_store []) = Done (result_ok IPC_OK p, s') \<and>
    objects s' 0 = objects (wide_store []) 0 \<and> channel_opened (Ptr 0 0) (wide_store []) p s'"
  using channel_connect_on_every_branch [of "wide_store []" 0 0]
  by (auto simp: wide_store_facts) (auto simp: wide_store_def)

lemma destroy_opened:
  assumes opened: "channel_opened mem s p s'" and ok: "store_ok s"
  shows "\<exists>s''. ipc_channel_destroy p s' = Done (result_ok IPC_OK (), s'') \<and>
    dom (objects s'') = dom (objects s) \<and> channel_object s'' p = None \<and>
    (\<forall>c < fresh s. objects s'' c = objects s' c)"
proof -
  obtain q h where p: "channel_object s' p = Some \<lparr>channel_header_ptr = mem, buffer_ptr = q\<rparr>"
    and q: "buffer_object s' q = Some h"
    and pq: "{p, q} = {Ptr (fresh s) 0, Ptr (Suc (fresh s)) 0}"
    and dom: "dom (objects s') = dom (objects s) \<union> {fresh s, Suc (fresh s)}"
    using opened by (auto simp: channel_opened_def)
  obtain x y where xy: "p = Ptr x 0" "objects s' x = Some (Channel_Obj \<lparr>channel_header_ptr = mem, buffer_ptr = q\<rparr>)"
    "q = Ptr y 0" "objects s' y = Some (Buffer_Obj h)"
    using p q by (auto simp: channel_object_Some_iff buffer_object_Some_iff)
  then have set: "{x, y} = {fresh s, Suc (fresh s)}" and ne: "x \<noteq> y"
    using pq by (auto simp: doubleton_eq_iff)
  have "dom ((objects s')(y := None, x := None)) = dom (objects s') - {x, y}"
    by auto
  also have "\<dots> = dom (objects s)"
    using dom ok set by (auto simp: store_ok_dom)
  finally have d: "dom ((objects s')(y := None, x := None)) = dom (objects s)" .
  have "c \<noteq> x \<and> c \<noteq> y" if "c < fresh s" for c
    using set that by (auto simp: doubleton_eq_iff)
  moreover have "ipc_channel_destroy p s' =
      Done (result_ok IPC_OK (), s'\<lparr>objects := (objects s')(y := None, x := None)\<rparr>)"
    using p xy ne by (simp add: ipc_channel_destroy_def Let_def)
  ultimately show ?thesis
    using d xy by (auto simp: channel_object_def)
qed

text \<open>
  C32. \<open>ipc_channel_destroy\<close> undoes \<open>ipc_channel_connect\<close>: both handles are freed and nothing else,
  so the objects are those of before, the contents of the shared memory included; using the
  destroyed handle a second time is a fault.
\<close>

theorem connect_destroy_round_trip:
  assumes "store_ok s" and "\<not> malloc_fails s" and "\<not> second_malloc_fails s"
  shows "\<exists>p s' s''. ipc_channel_connect (Ptr a off) s = Done (result_ok IPC_OK p, s') \<and>
    ipc_channel_destroy p s' = Done (result_ok IPC_OK (), s'') \<and> objects s'' = objects s \<and>
    ipc_channel_destroy p s'' = Fault"
proof -
  let ?p = "Ptr (fresh s) 0"
  obtain s' where c: "ipc_channel_connect (Ptr a off) s = Done (result_ok IPC_OK ?p, s')"
    and o: "channel_opened (Ptr a off) s ?p s'" and same: "\<forall>c < fresh s. objects s' c = objects s c"
    using channel_connect_cases [OF assms(1), of a off] assms(2,3) by auto
  obtain s'' where d: "ipc_channel_destroy ?p s' = Done (result_ok IPC_OK (), s'')"
    and dom: "dom (objects s'') = dom (objects s)" and gone: "channel_object s'' ?p = None"
    and same': "\<forall>c < fresh s. objects s'' c = objects s' c"
    using destroy_opened [OF o assms(1)] by blast
  have "objects s'' c = objects s c" for c
  proof (cases "c < fresh s")
    case False
    then have "objects s c = None"
      using assms(1) by (simp add: store_ok_def)
    then show ?thesis
      using dom by (metis domIff)
  qed (use same same' in simp)
  then have "objects s'' = objects s"
    by (rule ext)
  moreover have "ipc_channel_destroy ?p s'' = Fault"
    using gone by (simp add: ipc_channel_destroy_def)
  ultimately show ?thesis
    using c d by blast
qed

theorem connect_destroy_round_trip_witness:
  "\<exists>p s' s''. ipc_channel_connect (Ptr 0 0) (wide_store []) = Done (result_ok IPC_OK p, s') \<and>
    ipc_channel_destroy p s' = Done (result_ok IPC_OK (), s'') \<and>
    objects s'' = objects (wide_store [])"
  using connect_destroy_round_trip [of "wide_store []" 0 0]
  by (auto simp: wide_store_facts)

end
