(* ===== verification/Ipc_Init.thy ===== *)
theory Ipc_Init
  imports Mmap_Spec Channel_Object
begin

text \<open>
  \<^verbatim>\<open>core/src/ipc_init.c\<close>: the convenience functions that validate a size, map a segment and create or
  open a buffer or a channel in it. The four functions hand the segment pointer itself, not its
  \<open>memory\<close> field, to the constructors, and the model does the same.
\<close>

section \<open>Sizes\<close>

record ValidationResult =
  vr_status :: IpcStatus
  vr_error_msg :: string
  vr_overhead :: u64
  vr_min_size :: u64

definition NOT_ENOUGH_SIZE_ERROR_MESSAGE :: string where
  "NOT_ENOUGH_SIZE_ERROR_MESSAGE = ''Not enough size for initialization, see recommended min size''"

definition NOT_ALIGNED_ERROR_MESSAGE :: string where
  "NOT_ALIGNED_ERROR_MESSAGE = ''(Size - overhead) must be power of 2, see recommended min size''"

text \<open>\<open>None\<close>: the power-of-two test does not end.\<close>

definition validate_size :: "u64 \<Rightarrow> u64 \<Rightarrow> u64 \<Rightarrow> ValidationResult option" where
  "validate_size requested_size min_size overhead =
     (let result = \<lparr>vr_status = IPC_OK, vr_error_msg = [], vr_overhead = 0, vr_min_size = 0\<rparr>
      in if requested_size < min_size then
           Some (result\<lparr>vr_status := IPC_ERR_INVALID_ARGUMENT,
             vr_error_msg := NOT_ENOUGH_SIZE_ERROR_MESSAGE, vr_min_size := min_size\<rparr>)
         else map_option (\<lambda>pow2.
             if \<not> pow2 then result\<lparr>vr_status := IPC_ERR_INVALID_ARGUMENT,
               vr_error_msg := NOT_ALIGNED_ERROR_MESSAGE, vr_overhead := overhead\<rparr>
             else result\<lparr>vr_status := IPC_OK\<rparr>)
           (is_power_of_2 (requested_size - overhead)))"

text \<open>The file's own copy of the power-of-two search.\<close>

definition init_find_next_power_of_2 :: "u64 \<Rightarrow> u64 option" where
  "init_find_next_power_of_2 n =
     (if n = 0 then Some 1 else while_option (\<lambda>pow. pow < n) (\<lambda>pow. push_bit 1 pow) 1)"

definition ipc_init_suggest_buffer_size :: "u64 \<Rightarrow> u64 option" where
  "ipc_init_suggest_buffer_size desired_capacity =
     (let min_size = ipc_buffer_get_min_size;
          overhead = ipc_buffer_get_memory_overhead
      in if desired_capacity + overhead < min_size then Some min_size
         else map_option (\<lambda>aligned_capacity. aligned_capacity + overhead)
                (init_find_next_power_of_2 desired_capacity))"

definition ipc_init_suggest_channel_size :: "u64 \<Rightarrow> u64 option" where
  "ipc_init_suggest_channel_size desired_capacity =
     (let min_size = ipc_channel_get_min_size;
          overhead = ipc_channel_get_memory_overhead
      in if desired_capacity + overhead < min_size then Some min_size
         else map_option (\<lambda>aligned_capacity. aligned_capacity + overhead)
                (init_find_next_power_of_2 desired_capacity))"

section \<open>Opening\<close>

text \<open>A constructor of the library run on the memory of a process.\<close>

definition on_memory :: "(store \<Rightarrow> ('r \<times> store) run) \<Rightarrow> process \<Rightarrow> ('r \<times> process) run" where
  "on_memory f p = bind_run (f (cmem p)) (\<lambda>(r, s). Done (r, p\<lparr>cmem := s\<rparr>))"

text \<open>The check of the size that opens all four functions: \<open>Inl\<close> is the failed validation.\<close>

definition validated :: "u64 \<Rightarrow> u64 \<Rightarrow> u64 \<Rightarrow> (ValidationResult \<Rightarrow> 'r) \<Rightarrow> (unit \<Rightarrow> ('r \<times> process) run) \<Rightarrow>
    process \<Rightarrow> ('r \<times> process) run" where
  "validated n min_size overhead refuse continue p =
     (case validate_size n min_size overhead of
        None \<Rightarrow> Timeout
      | Some validation \<Rightarrow>
          if vr_status validation \<noteq> IPC_OK then Done (refuse validation, p) else continue ())"

record IpcInitBufferCreateError =
  ibc_requested_size :: u64
  ibc_overhead :: u64
  ibc_min_size :: u64
  ibc_sys_errno :: u32

type_synonym IpcInitBufferCreateResult = "(ptr, IpcInitBufferCreateError) ipc_result"

definition ipc_init_buffer_create :: "sys \<Rightarrow> ptr \<Rightarrow> u64 \<Rightarrow> process \<Rightarrow>
    (IpcInitBufferCreateResult \<times> process) run" where
  "ipc_init_buffer_create sys path n p =
     (let error = \<lparr>ibc_requested_size = n, ibc_overhead = 0, ibc_min_size = 0, ibc_sys_errno = 0\<rparr>
      in validated n ipc_buffer_get_min_size ipc_buffer_get_memory_overhead
        (\<lambda>v. result_error_body (vr_status v) (vr_error_msg v)
           (error\<lparr>ibc_min_size := vr_min_size v, ibc_overhead := vr_overhead v\<rparr>))
        (\<lambda>_. bind_run (ipc_mmap sys path n p) (\<lambda>(mmap, p).
           if is_error mmap then
             access (error_body mmap) (\<lambda>b.
             access (error_detail mmap) (\<lambda>d.
               Done (result_error_body (ipc_status mmap) d (error\<lparr>ibc_sys_errno := me_sys_errno b\<rparr>), p)))
           else
             access (union_result (content mmap)) (\<lambda>segment.
             bind_run (on_memory (ipc_buffer_create segment n) p) (\<lambda>(buffer_result, p).
               if is_error buffer_result then
                 access (error_body buffer_result) (\<lambda>b.
                 access (error_detail buffer_result) (\<lambda>d.
                   Done (result_error_body (ipc_status buffer_result) d
                     (error\<lparr>ibc_sys_errno := bce_sys_errno b\<rparr>), p)))
               else
                 access (union_result (content buffer_result)) (\<lambda>buffer.
                   Done (result_ok IPC_OK buffer, p)))))) p)"

record IpcInitBufferAttachError =
  iba_requested_size :: u64
  iba_overhead :: u64
  iba_min_size :: u64
  iba_sys_errno :: u32

type_synonym IpcInitBufferAttachResult = "(ptr, IpcInitBufferAttachError) ipc_result"

definition ipc_init_buffer_attach :: "sys \<Rightarrow> ptr \<Rightarrow> u64 \<Rightarrow> process \<Rightarrow>
    (IpcInitBufferAttachResult \<times> process) run" where
  "ipc_init_buffer_attach sys path n p =
     (let error = \<lparr>iba_requested_size = n, iba_overhead = 0, iba_min_size = 0, iba_sys_errno = 0\<rparr>
      in validated n ipc_buffer_get_min_size ipc_buffer_get_memory_overhead
        (\<lambda>v. result_error_body (vr_status v) (vr_error_msg v)
           (error\<lparr>iba_min_size := vr_min_size v, iba_overhead := vr_overhead v\<rparr>))
        (\<lambda>_. bind_run (ipc_mmap sys path n p) (\<lambda>(mmap, p).
           if is_error mmap then
             access (error_body mmap) (\<lambda>b.
             access (error_detail mmap) (\<lambda>d.
               Done (result_error_body (ipc_status mmap) d (error\<lparr>iba_sys_errno := me_sys_errno b\<rparr>), p)))
           else
             access (union_result (content mmap)) (\<lambda>segment.
             bind_run (on_memory (\<lambda>s. Done (ipc_buffer_attach segment s)) p) (\<lambda>(buffer_result, p).
               if is_error buffer_result then
                 access (error_detail buffer_result) (\<lambda>d.
                   Done (result_error_body (ipc_status buffer_result) d error, p))
               else
                 access (union_result (content buffer_result)) (\<lambda>buffer.
                   Done (result_ok IPC_OK buffer, p)))))) p)"

record IpcInitChannelOpenError =
  ico_requested_size :: u64
  ico_overhead :: u64
  ico_min_size :: u64
  ico_sys_errno :: u32

type_synonym IpcInitChannelOpenResult = "(ptr, IpcInitChannelOpenError) ipc_result"

definition ipc_init_channel_create :: "sys \<Rightarrow> ptr \<Rightarrow> u64 \<Rightarrow> process \<Rightarrow>
    (IpcInitChannelOpenResult \<times> process) run" where
  "ipc_init_channel_create sys path n p =
     (let error = \<lparr>ico_requested_size = n, ico_overhead = 0, ico_min_size = 0, ico_sys_errno = 0\<rparr>
      in validated n ipc_channel_get_min_size ipc_channel_get_memory_overhead
        (\<lambda>v. result_error_body (vr_status v) (vr_error_msg v)
           (error\<lparr>ico_min_size := vr_min_size v, ico_overhead := vr_overhead v\<rparr>))
        (\<lambda>_. bind_run (ipc_mmap sys path n p) (\<lambda>(mmap, p).
           if is_error mmap then
             access (error_body mmap) (\<lambda>b.
             access (error_detail mmap) (\<lambda>d.
               Done (result_error_body (ipc_status mmap) d (error\<lparr>ico_sys_errno := me_sys_errno b\<rparr>), p)))
           else
             access (union_result (content mmap)) (\<lambda>segment.
             bind_run (on_memory (ipc_channel_create segment n) p) (\<lambda>(channel_open_result, p).
               if is_error channel_open_result then
                 access (error_body channel_open_result) (\<lambda>b.
                 access (error_detail channel_open_result) (\<lambda>d.
                   Done (result_error_body (ipc_status channel_open_result) d
                     (error\<lparr>ico_sys_errno := coe_sys_errno b\<rparr>), p)))
               else
                 access (union_result (content channel_open_result)) (\<lambda>ch.
                   Done (result_ok IPC_OK ch, p)))))) p)"

record IpcInitChannelConnectError =
  icc_requested_size :: u64
  icc_overhead :: u64
  icc_min_size :: u64
  icc_sys_errno :: u32

type_synonym IpcInitChannelConnectResult = "(ptr, IpcInitChannelConnectError) ipc_result"

definition ipc_init_channel_connect :: "sys \<Rightarrow> ptr \<Rightarrow> u64 \<Rightarrow> process \<Rightarrow>
    (IpcInitChannelConnectResult \<times> process) run" where
  "ipc_init_channel_connect sys path n p =
     (let error = \<lparr>icc_requested_size = n, icc_overhead = 0, icc_min_size = 0, icc_sys_errno = 0\<rparr>
      in validated n ipc_channel_get_min_size ipc_channel_get_memory_overhead
        (\<lambda>v. result_error_body (vr_status v) (vr_error_msg v)
           (error\<lparr>icc_min_size := vr_min_size v, icc_overhead := vr_overhead v\<rparr>))
        (\<lambda>_. bind_run (ipc_mmap sys path n p) (\<lambda>(mmap, p).
           if is_error mmap then
             access (error_body mmap) (\<lambda>b.
             access (error_detail mmap) (\<lambda>d.
               Done (result_error_body (ipc_status mmap) d (error\<lparr>icc_sys_errno := me_sys_errno b\<rparr>), p)))
           else
             access (union_result (content mmap)) (\<lambda>segment.
             bind_run (on_memory (ipc_channel_connect segment) p) (\<lambda>(channel_connect_result, p).
               if is_error channel_connect_result then
                 access (error_detail channel_connect_result) (\<lambda>d.
                   Done (result_error_body (ipc_status channel_connect_result) d error, p))
               else
                 access (union_result (content channel_connect_result)) (\<lambda>ch.
                   Done (result_ok IPC_OK ch, p)))))) p)"

end
