(* ===== verification/Jni_Channel.thy ===== *)
theory Jni_Channel
  imports Ipc_Init
begin

text \<open>
  The native methods of the Java class \<open>IpcChannel\<close>. The build compiles
  \<^verbatim>\<open>java/native/src/lib_shm_ipc_jni_IpcChannel.c\<close>; a second copy under \<^verbatim>\<open>java/native/native/src\<close>
  differs in \<open>write\<close> and \<open>read\<close>, which retry there. The Java virtual machine is a parameter: which of
  its allocations succeed. The channel address that the Java object carries (\<open>get_channel\<close>) is the
  pointer to the channel of \<open>world\<close>, \<open>NULL\<close> (0) where \<open>init\<close> has failed.
\<close>

section \<open>The virtual machine\<close>

record jni =
  utf_chars :: bool
  byte_elements :: bool
  new_byte_array :: bool

text \<open>\<open>GetStringUTFChars\<close> and \<open>ReleaseStringUTFChars\<close>: the characters are an object in memory.\<close>

definition get_string_utf_chars :: "jni \<Rightarrow> string \<Rightarrow> process \<Rightarrow> ptr \<times> process" where
  "get_string_utf_chars env str p =
     (if utf_chars env then
        let s = cmem p
        in (Ptr (fresh s) 0,
            p\<lparr>cmem := s\<lparr>objects := (objects s)(fresh s \<mapsto> Name_Obj str), fresh := Suc (fresh s)\<rparr>\<rparr>)
      else (NULL, p))"

fun release_string_utf_chars :: "ptr \<Rightarrow> process \<Rightarrow> process" where
  "release_string_utf_chars NULL p = p"
| "release_string_utf_chars (Ptr a off) p = p\<lparr>cmem := (cmem p)\<lparr>objects := (objects (cmem p))(a := None)\<rparr>\<rparr>"

section \<open>init\<close>

text \<open>\<open>size <= 0\<close> of a \<open>jlong\<close>.\<close>

definition not_positive :: "u64 \<Rightarrow> bool" where
  "not_positive n \<longleftrightarrow> n = 0 \<or> bit n 63"

definition IpcChannel_init :: "sys \<Rightarrow> jni \<Rightarrow> string option \<Rightarrow> u64 \<Rightarrow> bool \<Rightarrow> process \<Rightarrow> (ptr \<times> process) run" where
  "IpcChannel_init sys env path_to_file n is_producer p =
     (case path_to_file of
        None \<Rightarrow> Done (NULL, p)
      | Some file \<Rightarrow>
          if not_positive n then Done (NULL, p)
          else let (path, p) = get_string_utf_chars env file p
          in if path = NULL then Done (NULL, p)
          else (case ipc_channel_suggest_size n of
             None \<Rightarrow> Timeout
           | Some aligned \<Rightarrow>
               bind_run (ipc_mmap sys path aligned p) (\<lambda>(mmap_result, p).
                 if is_error mmap_result then Done (NULL, release_string_utf_chars path p)
                 else
                   access (union_result (content mmap_result)) (\<lambda>seg.
                     let p = release_string_utf_chars path p
                     in if seg = NULL then Done (NULL, p)
                     else access (segment_object seg p) (\<lambda>h.
                       if segment_memory h = NULL \<or> segment_size h = 0 then Done (NULL, p)
                       else if is_producer then
                         bind_run (on_memory (ipc_channel_create (segment_memory h) (segment_size h)) p)
                           (\<lambda>(create_result, p).
                             if is_ok create_result then
                               access (union_result (content create_result)) (\<lambda>ch. Done (ch, p))
                             else Done (NULL, p))
                       else
                         bind_run (on_memory (ipc_channel_connect (segment_memory h)) p)
                           (\<lambda>(connect_result, p).
                             if is_ok connect_result then
                               access (union_result (content connect_result)) (\<lambda>ch. Done (ch, p))
                             else Done (NULL, p)))))))"

section \<open>write\<close>

text \<open>
  The method returns nothing to Java. The elements that \<open>GetByteArrayElements\<close> hands out are
  released on every path; the counter \<open>pinned\<close> is their number.
\<close>

definition get_elements :: "jni \<Rightarrow> u8 list \<Rightarrow> nat \<Rightarrow> u8 list option \<times> nat" where
  "get_elements env arr pinned = (if byte_elements env then (Some arr, Suc pinned) else (None, pinned))"

definition release_elements :: "u8 list option \<Rightarrow> nat \<Rightarrow> nat" where
  "release_elements elements pinned = (if elements = None then pinned else pinned - 1)"

definition IpcChannel_write :: "nat \<Rightarrow> os \<Rightarrow> jni \<Rightarrow> u8 list \<Rightarrow> nat \<Rightarrow> world \<Rightarrow> (nat \<times> world) run" where
  "IpcChannel_write fuel os env arr pinned w =
     (let arr_len = word_of_nat (length arr);
          (bytes, pinned) = get_elements env arr pinned
      in if channel w = None then Done (release_elements bytes pinned, w)
         else
           bind_run (ipc_channel_write fuel os bytes arr_len w) (\<lambda>(write_result, w).
             Done (release_elements bytes pinned, w)))"

text \<open>The other copy calls again as long as there is no space; the first number bounds the calls.\<close>

fun write_until_space :: "nat \<Rightarrow> nat \<Rightarrow> os \<Rightarrow> u8 list option \<Rightarrow> u64 \<Rightarrow> world \<Rightarrow> (IpcChannelWriteResult \<times> world) run" where
  "write_until_space 0 fuel os bytes n w = Timeout"
| "write_until_space (Suc k) fuel os bytes n w =
     bind_run (ipc_channel_write fuel os bytes n w) (\<lambda>(write_result, w).
       if is_error write_result \<and> ipc_status write_result = IPC_ERR_NO_SPACE_CONTIGUOUS
       then write_until_space k fuel os bytes n w
       else Done (write_result, w))"

definition retrying_IpcChannel_write :: "nat \<Rightarrow> nat \<Rightarrow> os \<Rightarrow> jni \<Rightarrow> u8 list \<Rightarrow> nat \<Rightarrow> world \<Rightarrow> (nat \<times> world) run" where
  "retrying_IpcChannel_write k fuel os env arr pinned w =
     (let arr_len = word_of_nat (length arr);
          (bytes, pinned) = get_elements env arr pinned
      in if channel w = None then Done (release_elements bytes pinned, w)
         else
           bind_run (write_until_space k fuel os bytes arr_len w) (\<lambda>(write_result, w).
             Done (release_elements bytes pinned, w)))"

section \<open>read\<close>

text \<open>
  The Java array made of the entry, or \<open>None\<close> (\<open>null\<close>). The size becomes a \<open>jsize\<close>, a signed
  32-bit number. The payload is not freed.
\<close>

fun payload_region :: "payload_ptr \<Rightarrow> nat \<Rightarrow> u8 list option" where
  "payload_region (Own bytes) n = read_bytes bytes 0 n"
| "payload_region ptr n = None"

definition to_java_array :: "jni \<Rightarrow> IpcEntry \<Rightarrow> world \<Rightarrow> (u8 list option \<times> world) run" where
  "to_java_array env entry w =
     (let len = sint (ucast (entry_len entry) :: 32 word)
      in if len \<le> 0 then Done (None, w)
         else if \<not> new_byte_array env then Done (None, w)
         else access (payload_region (payload entry) (nat len)) (\<lambda>bytes. Done (Some bytes, w)))"

text \<open>\<open>uninit\<close> is the indeterminate value of the local variable \<open>entry\<close>.\<close>

definition IpcChannel_read :: "nat \<Rightarrow> nat \<Rightarrow> nat \<Rightarrow> os \<Rightarrow> jni \<Rightarrow> IpcEntry \<Rightarrow> world \<Rightarrow> (u8 list option \<times> world) run" where
  "IpcChannel_read k n fuel os env uninit w =
     (if channel w = None then Done (None, w)
      else
        bind_run (ipc_channel_read k n fuel os (Some uninit) (Some \<lparr>tv_sec = 1, tv_nsec = 0\<rparr>) w)
          (\<lambda>((read_result, entry), w).
            if is_error read_result then Done (None, w)
            else access entry (\<lambda>entry. to_java_array env entry w)))"

text \<open>
  The other copy waits 5 microseconds at a time and reads again after a timeout. Any other error
  leaves \<open>entry\<close> as it was.
\<close>

fun read_until_message :: "nat \<Rightarrow> nat \<Rightarrow> nat \<Rightarrow> nat \<Rightarrow> os \<Rightarrow> IpcEntry \<Rightarrow> world \<Rightarrow> (IpcEntry \<times> world) run" where
  "read_until_message 0 k n fuel os entry w = Timeout"
| "read_until_message (Suc j) k n fuel os entry w =
     bind_run (ipc_channel_read k n fuel os (Some entry) (Some \<lparr>tv_sec = 0, tv_nsec = 5000\<rparr>) w)
       (\<lambda>((read_result, entry), w). access entry (\<lambda>entry.
         if is_error read_result \<and> ipc_status read_result = IPC_ERR_TIMEOUT
         then read_until_message j k n fuel os entry w
         else Done (entry, w)))"

definition retrying_IpcChannel_read :: "nat \<Rightarrow> nat \<Rightarrow> nat \<Rightarrow> nat \<Rightarrow> os \<Rightarrow> jni \<Rightarrow> IpcEntry \<Rightarrow> world \<Rightarrow> (u8 list option \<times> world) run" where
  "retrying_IpcChannel_read j k n fuel os env uninit w =
     (if channel w = None then Done (None, w)
      else bind_run (read_until_message j k n fuel os uninit w) (\<lambda>(entry, w). to_java_array env entry w))"

end
