(* ===== verification/Init_Spec.thy ===== *)
theory Init_Spec
  imports Ipc_Init
begin

text \<open>
  The convenience functions of \<^verbatim>\<open>core/src/ipc_init.c\<close>: their sizes agree with those of the
  constructors, a refused size touches nothing, and, because the segment pointer is handed on in
  place of the mapped memory, none of the four yields a usable buffer or channel.
\<close>

section \<open>Sizes\<close>

lemma buffer_overhead_128: "ipc_buffer_get_memory_overhead = 128"
  and buffer_min_136: "ipc_buffer_get_min_size = 136"
  by (simp_all add: ipc_buffer_get_memory_overhead_def ipc_buffer_get_min_size_def
      BUFFER_HEADER_SIZE_ALIGNED_def IPC_DATA_ALIGN_def)

lemma init_find_next_same: "init_find_next_power_of_2 n = find_next_power_of_2 n"
  unfolding init_find_next_power_of_2_def find_next_power_of_2_def double_until_def ..

definition size_status :: "u64 \<Rightarrow> u64 \<Rightarrow> u64 \<Rightarrow> IpcStatus option" where
  "size_status n min_size overhead = map_option vr_status (validate_size n min_size overhead)"

text \<open>
  A size is valid where it is the overhead plus a power of two that is at least 8.
\<close>

lemma size_status_value:
  assumes "unat min_size = unat overhead + 8"
  shows "size_status n min_size overhead =
    (if unat n < unat overhead + 8 then Some IPC_ERR_INVALID_ARGUMENT
     else if 9223372036854775808 < unat n - unat overhead then None
     else if \<exists>k. unat n = unat overhead + 2 ^ k then Some IPC_OK
     else Some IPC_ERR_INVALID_ARGUMENT)"
proof (cases "unat n < unat overhead + 8")
  case True
  then show ?thesis
    using assms by (simp add: size_status_def validate_size_def word_less_nat_alt)
next
  case False
  then have u: "unat (n - overhead) = unat n - unat overhead"
    by (intro unat_diff_le) simp
  have pow: "(unat n - unat overhead = 2 ^ k) = (unat n = unat overhead + 2 ^ k)" for k
    using False by auto
  show ?thesis
  proof (cases "9223372036854775808 < unat n - unat overhead")
    case True
    then show ?thesis
      using False assms u is_power_of_2_diverges [of "n - overhead"]
      by (simp add: size_status_def validate_size_def word_less_nat_alt)
  next
    case small: False
    then show ?thesis
      using False assms u is_power_of_2_iff [of "n - overhead"] pow
      by (simp add: size_status_def validate_size_def word_less_nat_alt Let_def)
  qed
qed

lemma suggested_validates:
  assumes "unat min_size = unat overhead + 8" and "unat overhead \<le> 192"
  shows "case (if c + overhead < min_size then Some min_size
      else map_option (\<lambda>p. p + overhead) (find_next_power_of_2 c)) of
    None \<Rightarrow> 9223372036854775808 < unat c
  | Some n \<Rightarrow> size_status n min_size overhead = Some IPC_OK"
proof -
  have e8: "\<exists>k. (8 :: nat) = 2 ^ k"
    by (rule exI [of _ 3]) simp
  show ?thesis
  proof (cases "c + overhead < min_size")
    case True
    then show ?thesis
      using e8 by (simp add: size_status_value [OF assms(1)] assms(1))
  next
    case False
    then have ge: "unat overhead + 8 \<le> (unat c + unat overhead) mod two64"
      using assms(1) by (simp add: word_less_nat_alt unat_add_two64)
    show ?thesis
    proof (cases rule: next_power_cases [of c])
      case (found p k)
      have "unat c + unat overhead < two64"
        using found(1) assms(2) by simp
      then have "8 \<le> unat p"
        using ge found(4,5) by simp
      moreover have "unat p \<le> 9223372036854775808"
        using found(3,4) pow2_le_2p63 [of k] by simp
      moreover have "unat (p + overhead) = unat p + unat overhead"
        using \<open>unat p \<le> 9223372036854775808\<close> assms(2) by (simp add: unat_add_two64)
      ultimately have "size_status (p + overhead) min_size overhead = Some IPC_OK"
        using found(4) by (auto simp: size_status_value [OF assms(1)])
      then show ?thesis
        using False found(2) by simp
    qed (use False in simp)
  qed
qed

text \<open>
  C39. The two size proposals of \<open>ipc_init.c\<close> are those of the buffer and of the channel, although the
  file has its own power-of-two search; and every proposed size passes the file's own validation.
  A proposal is missing only for capacities above \<open>2\<^sup>6\<^sup>3\<close>, for which the search does not end.
\<close>

theorem init_sizes_agree:
  "ipc_init_suggest_buffer_size c = ipc_buffer_suggest_size c \<and>
   ipc_init_suggest_channel_size c = ipc_channel_suggest_size c \<and>
   (case ipc_init_suggest_buffer_size c of
      None \<Rightarrow> 9223372036854775808 < unat c
    | Some n \<Rightarrow> size_status n ipc_buffer_get_min_size ipc_buffer_get_memory_overhead = Some IPC_OK) \<and>
   (case ipc_init_suggest_channel_size c of
      None \<Rightarrow> 9223372036854775808 < unat c
    | Some n \<Rightarrow> size_status n ipc_channel_get_min_size ipc_channel_get_memory_overhead = Some IPC_OK)"
proof -
  have "unat (136 :: u64) = unat (128 :: u64) + 8" "unat (128 :: u64) \<le> 192"
    and "unat (200 :: u64) = unat (192 :: u64) + 8" "unat (192 :: u64) \<le> 192"
    by simp_all
  from suggested_validates [OF this(1,2), of c] suggested_validates [OF this(3,4), of c]
  show ?thesis
    unfolding ipc_init_suggest_buffer_size_def ipc_init_suggest_channel_size_def
      ipc_buffer_suggest_size_def ipc_channel_suggest_size_def init_find_next_same
      buffer_overhead_128 buffer_min_136 overhead_192 min_size_200 Let_def
    by (intro conjI refl)
qed

lemma validated_refuses:
  fixes refuse :: "ValidationResult \<Rightarrow> ('t, 'e) ipc_result"
  assumes "size_status n m ovh \<noteq> Some IPC_OK" and "unat ovh = k" and "unat m = k + 8"
    and "\<And>v. ipc_status (refuse v) = vr_status v"
  shows "case validated n m ovh refuse continue p of
      Done (r, p') \<Rightarrow> ipc_status r = IPC_ERR_INVALID_ARGUMENT \<and> p' = p
    | Fault \<Rightarrow> False | Timeout \<Rightarrow> k + 9223372036854775808 < unat n"
proof -
  have "unat m = unat ovh + 8"
    using assms(2,3) by simp
  from size_status_value [OF this, of n] show ?thesis
    using assms by (auto simp: validated_def size_status_def split: option.split if_split_asm)
qed

text \<open>
  Validation comes first: a size that is not the overhead plus a power of two from 8 to
  \<open>2\<^sup>6\<^sup>3\<close> is refused by all four functions with \<open>IPC_ERR_INVALID_ARGUMENT\<close> before any segment is
  created or any memory allocated; above \<open>2\<^sup>6\<^sup>3\<close> plus the overhead they do not return.
\<close>

theorem init_refuses_sizes:
  "(size_status n 136 128 \<noteq> Some IPC_OK \<longrightarrow>
     (case ipc_init_buffer_create sys path n p of
        Done (r, p') \<Rightarrow> ipc_status r = IPC_ERR_INVALID_ARGUMENT \<and> p' = p | Fault \<Rightarrow> False
      | Timeout \<Rightarrow> 128 + 9223372036854775808 < unat n) \<and>
     (case ipc_init_buffer_attach sys path n p of
        Done (r, p') \<Rightarrow> ipc_status r = IPC_ERR_INVALID_ARGUMENT \<and> p' = p | Fault \<Rightarrow> False
      | Timeout \<Rightarrow> 128 + 9223372036854775808 < unat n)) \<and>
   (size_status n 200 192 \<noteq> Some IPC_OK \<longrightarrow>
     (case ipc_init_channel_create sys path n p of
        Done (r, p') \<Rightarrow> ipc_status r = IPC_ERR_INVALID_ARGUMENT \<and> p' = p | Fault \<Rightarrow> False
      | Timeout \<Rightarrow> 192 + 9223372036854775808 < unat n) \<and>
     (case ipc_init_channel_connect sys path n p of
        Done (r, p') \<Rightarrow> ipc_status r = IPC_ERR_INVALID_ARGUMENT \<and> p' = p | Fault \<Rightarrow> False
      | Timeout \<Rightarrow> 192 + 9223372036854775808 < unat n))"
  unfolding ipc_init_buffer_create_def ipc_init_buffer_attach_def ipc_init_channel_create_def
    ipc_init_channel_connect_def Let_def buffer_overhead_128 buffer_min_136 overhead_192 min_size_200
  by (intro conjI impI; intro validated_refuses) simp_all

theorem init_refuses_sizes_witness:
  "\<exists>r. ipc_init_channel_create good_sys (Ptr 0 0) 199 named_process = Done (r, named_process) \<and>
    ipc_status r = IPC_ERR_INVALID_ARGUMENT"
proof -
  have "size_status 199 200 192 \<noteq> Some IPC_OK"
    by (simp add: size_status_value)
  then show ?thesis
    using init_refuses_sizes [where n = 199 and sys = good_sys and path = "Ptr 0 0" and p = named_process]
    by (auto split: run.split_asm)
qed

section \<open>The segment pointer in place of the memory\<close>

text \<open>The pointer that \<open>ipc_mmap\<close> returns designates the segment structure.\<close>

lemma mapped_segment_object:
  assumes "segment_mapped name m p x p'"
  obtains a h where "x = Ptr a 0" and "objects (cmem p') a = Some (Segment_Obj h)" and "a < fresh (cmem p')"
  using assms
  by (auto simp: segment_mapped_def Let_def segment_object_def split: option.split_asm cobject.split_asm)

lemma no_bytes_there:
  assumes "objects s a = Some (Segment_Obj h)" and "a < fresh s"
  shows "object_bytes (s\<lparr>objects := (objects s)(fresh s \<mapsto> obj), fresh := f, script := t\<rparr>) a = None"
    and "object_bytes s a = None"
  using assms by (simp_all add: object_bytes_def)

lemma size_status_OK:
  assumes "size_status n m ovh = Some IPC_OK"
  obtains v where "validate_size n m ovh = Some v" and "vr_status v = IPC_OK"
  using assms by (auto simp: size_status_def)

lemma size_status_OK_power:
  assumes "size_status n m ovh = Some IPC_OK" and "unat m = unat ovh + 8"
  obtains k where "unat n = unat ovh + 2 ^ k" and "unat n \<le> unat ovh + 9223372036854775808"
    and "unat ovh + 8 \<le> unat n"
  using assms by (auto simp: size_status_value split: if_split_asm)

lemma buffer_create_in_segment:
  assumes "objects s a = Some (Segment_Obj h)" and "a < fresh s" and "unat n = 128 + 2 ^ k"
    and "unat n \<le> 128 + 9223372036854775808"
  shows "ipc_buffer_create (Ptr a off) n s =
    (if malloc_fails s
     then Done (result_error_body IPC_ERR_SYSTEM ''system error: buffer allocation failed''
        \<lparr>bce_requested_size = n, bce_min_size = 128, bce_sys_errno = ENOMEM\<rparr>,
        s\<lparr>script := tl (script s), errno := ENOMEM\<rparr>)
     else Fault)"
  using create_size_checks [OF assms(4), of a off s] assms(3) no_bytes_there(1) [OF assms(1,2)]
  by (auto simp: malloc_def)

lemma init_buffer_create_mapped:
  assumes run: "ipc_mmap sys path n p = Done (result_ok IPC_OK x, p1)" and mapped: "segment_mapped name m p x p1"
    and size: "size_status n 136 128 = Some IPC_OK"
  shows "ipc_init_buffer_create sys path n p =
    (if malloc_fails (cmem p1)
     then Done (result_error_body IPC_ERR_SYSTEM ''system error: buffer allocation failed''
        \<lparr>ibc_requested_size = n, ibc_overhead = 0, ibc_min_size = 0, ibc_sys_errno = ENOMEM\<rparr>,
        p1\<lparr>cmem := (cmem p1)\<lparr>script := tl (script (cmem p1)), errno := ENOMEM\<rparr>\<rparr>)
     else Fault)"
proof -
  obtain v where v: "validate_size n 136 128 = Some v" "vr_status v = IPC_OK"
    using size by (rule size_status_OK)
  have eight: "unat (136 :: u64) = unat (128 :: u64) + 8"
    by simp
  obtain k where k: "unat n = 128 + 2 ^ k" "unat n \<le> 128 + 9223372036854775808"
    using size_status_OK_power [OF size eight] by auto
  obtain a h where x: "x = Ptr a 0" "objects (cmem p1) a = Some (Segment_Obj h)" "a < fresh (cmem p1)"
    using mapped by (rule mapped_segment_object)
  show ?thesis
    using run v buffer_create_in_segment [OF x(2,3) k, of 0] x(1)
    by (simp add: ipc_init_buffer_create_def validated_def buffer_overhead_128 buffer_min_136
        on_memory_def is_error_iff Let_def)
qed

lemma init_channel_create_mapped:
  assumes run: "ipc_mmap sys path n p = Done (result_ok IPC_OK x, p1)" and mapped: "segment_mapped name m p x p1"
    and size: "size_status n 200 192 = Some IPC_OK"
  shows "ipc_init_channel_create sys path n p =
    (if malloc_fails (cmem p1)
     then Done (result_error_body IPC_ERR_SYSTEM ''system error: buffer allocation failed''
        \<lparr>ico_requested_size = n, ico_overhead = 0, ico_min_size = 0, ico_sys_errno = ENOMEM\<rparr>,
        p1\<lparr>cmem := (cmem p1)\<lparr>script := tl (script (cmem p1)), errno := ENOMEM\<rparr>\<rparr>)
     else Fault)"
proof -
  obtain v where v: "validate_size n 200 192 = Some v" "vr_status v = IPC_OK"
    using size by (rule size_status_OK)
  have eight: "unat (200 :: u64) = unat (192 :: u64) + 8"
    by simp
  obtain k where k: "unat n = 192 + 2 ^ k" "unat n \<le> 192 + 9223372036854775808"
    using size_status_OK_power [OF size eight] by auto
  note n = channel_size_minus [OF k(1)]
  have n': "unat (n - 64) \<le> 128 + 9223372036854775808"
    using n(2) k by simp
  obtain a h where x: "x = Ptr a 0" "objects (cmem p1) a = Some (Segment_Obj h)" "a < fresh (cmem p1)"
    using mapped by (rule mapped_segment_object)
  show ?thesis
    using run v buffer_create_in_segment [OF x(2,3) n(2) n', of 64] x(1) n(1)
    by (simp add: ipc_init_channel_create_def validated_def overhead_192 min_size_200
        on_memory_def channel_create_checks is_error_iff Let_def)
qed

text \<open>What a call of \<open>ipc_mmap\<close> leads to, as far as its caller is concerned.\<close>

lemma mmap_outcome:
  assumes "store_ok (cmem p)" and "name_at path p = Some name" and "n \<noteq> 0"
    and "mapping_ok sys" and "munmap_ok sys"
  obtains (error) r b d p1 where "ipc_mmap sys path n p = Done (r, p1)" and "is_error r"
      and "error_body r = Some b" and "error_detail r = Some d" and "objects (cmem p1) = objects (cmem p)"
    | (mapped) x m p1 where "ipc_mmap sys path n p = Done (result_ok IPC_OK x, p1)"
      and "segment_mapped name m p x p1"
proof -
  obtain r p1 where run: "ipc_mmap sys path n p = Done (r, p1)"
    and res: "case ipc_status r of
       IPC_OK \<Rightarrow> \<exists>x m. r = result_ok IPC_OK x \<and> segment_mapped name m p x p1 \<and>
         (m = n \<or> (\<exists>t fd. sys_ftruncate sys t fd n = None \<and> sys_fstat sys (Suc t) fd = Inl m))
     | IPC_ERR_SYSTEM \<Rightarrow> objects (cmem p1) = objects (cmem p)
     | IPC_ERR_ILLEGAL_STATE \<Rightarrow> objects (cmem p1) = objects (cmem p) \<and>
         (\<exists>b. error_body r = Some b \<and> me_existed b \<and> me_existing_size b \<noteq> n)
     | _ \<Rightarrow> False"
    using ipc_mmap_ok [OF assms] by blast
  show ?thesis
  proof (cases "ipc_status r = IPC_OK")
    case True
    then show ?thesis
      using run res mapped by auto
  next
    case False
    then have e: "is_error r" and same: "objects (cmem p1) = objects (cmem p)"
      using res by (auto simp: is_error_iff split: IpcStatus.split_asm)
    with ipc_mmap_tagged [OF run] show ?thesis
      using well_tagged_error error [OF run] by metis
  qed
qed

lemma validated_OK:
  assumes "size_status n m ovh = Some IPC_OK"
  shows "validated n m ovh refuse continue p = continue ()"
proof -
  obtain v where "validate_size n m ovh = Some v" "vr_status v = IPC_OK"
    using assms by (rule size_status_OK)
  then show ?thesis
    by (simp add: validated_def)
qed

text \<open>A refusal by the validation is an error.\<close>

lemma validated_is_error:
  fixes refuse :: "ValidationResult \<Rightarrow> ('t, 'e) ipc_result"
  assumes "size_status n m ovh \<noteq> Some IPC_OK" and "unat m = unat ovh + 8"
    and "\<And>v. ipc_status (refuse v) = vr_status v"
  shows "case validated n m ovh refuse continue p of Done (r, p') \<Rightarrow> is_error r | _ \<Rightarrow> True"
  using validated_refuses [where continue = continue and p = p, OF assms(1) refl assms(2,3)]
  by (auto simp: is_error_iff split: run.split_asm run.split)

text \<open>
  C37. \<open>ipc_init_buffer_create\<close> and \<open>ipc_init_channel_create\<close> never succeed. Where every system call
  and every allocation succeeds, the constructor stores a header of 128 bytes through the pointer
  to the 24-byte segment structure, outside of it; otherwise the result is an error. (Here \<open>Fault\<close>
  is that store.)
\<close>

theorem init_create_never_succeeds:
  assumes "store_ok (cmem p)" and "name_at path p = Some name" and "n \<noteq> 0"
    and "mapping_ok sys" and "munmap_ok sys"
  shows "(case ipc_init_buffer_create sys path n p of Done (r, p') \<Rightarrow> is_error r | _ \<Rightarrow> True) \<and>
    (case ipc_init_channel_create sys path n p of Done (r, p') \<Rightarrow> is_error r | _ \<Rightarrow> True) \<and>
    (grants sys n \<and> script (cmem p) = [] \<and> size_status n 136 128 = Some IPC_OK \<longrightarrow>
       ipc_init_buffer_create sys path n p = Fault) \<and>
    (grants sys n \<and> script (cmem p) = [] \<and> size_status n 200 192 = Some IPC_OK \<longrightarrow>
       ipc_init_channel_create sys path n p = Fault)"
proof (intro conjI impI)
  show "case ipc_init_buffer_create sys path n p of Done (r, p') \<Rightarrow> is_error r | _ \<Rightarrow> True"
  proof (cases "size_status n 136 128 = Some IPC_OK")
    case True
    from assms show ?thesis
    proof (cases rule: mmap_outcome)
      case (error r b d p1)
      then show ?thesis
        by (simp add: ipc_init_buffer_create_def validated_OK [OF True] buffer_overhead_128
            buffer_min_136 is_error_iff Let_def)
    next
      case (mapped x m p1)
      then show ?thesis
        by (simp add: init_buffer_create_mapped [OF mapped True] is_error_iff)
    qed
  next
    case False
    then show ?thesis
      unfolding ipc_init_buffer_create_def Let_def buffer_overhead_128 buffer_min_136
      by (intro validated_is_error) simp_all
  qed
  show "case ipc_init_channel_create sys path n p of Done (r, p') \<Rightarrow> is_error r | _ \<Rightarrow> True"
  proof (cases "size_status n 200 192 = Some IPC_OK")
    case True
    from assms show ?thesis
    proof (cases rule: mmap_outcome)
      case (error r b d p1)
      then show ?thesis
        by (simp add: ipc_init_channel_create_def validated_OK [OF True] overhead_192 min_size_200
            is_error_iff Let_def)
    next
      case (mapped x m p1)
      then show ?thesis
        by (simp add: init_channel_create_mapped [OF mapped True] is_error_iff)
    qed
  next
    case False
    then show ?thesis
      unfolding ipc_init_channel_create_def Let_def overhead_192 min_size_200
      by (intro validated_is_error) simp_all
  qed
next
  assume g: "grants sys n \<and> script (cmem p) = [] \<and> size_status n 136 128 = Some IPC_OK"
  then obtain x p1 where "ipc_mmap sys path n p = Done (result_ok IPC_OK x, p1)"
    "segment_mapped name n p x p1" and "script (cmem p1) = []"
    using mmap_granted [OF assms] by blast
  with g show "ipc_init_buffer_create sys path n p = Fault"
    using init_buffer_create_mapped by (simp add: malloc_fails_def)
next
  assume g: "grants sys n \<and> script (cmem p) = [] \<and> size_status n 200 192 = Some IPC_OK"
  then obtain x p1 where "ipc_mmap sys path n p = Done (result_ok IPC_OK x, p1)"
    "segment_mapped name n p x p1" and "script (cmem p1) = []"
    using mmap_granted [OF assms] by blast
  with g show "ipc_init_channel_create sys path n p = Fault"
    using init_channel_create_mapped by (simp add: malloc_fails_def)
qed

lemma valid_256: "size_status 256 136 128 = Some IPC_OK" "size_status 256 200 192 = Some IPC_OK"
  using size_256 exI [of "\<lambda>k. (64 :: nat) = 2 ^ k" 6] by (auto simp: size_status_value)

theorem init_create_never_succeeds_witness:
  "ipc_init_buffer_create good_sys (Ptr 0 0) 256 named_process = Fault"
proof -
  have n: "(256 :: u64) \<noteq> 0"
    by simp
  show ?thesis
    using init_create_never_succeeds [OF named_process_facts(1,2) n good_sys_facts(1,2)]
      good_sys_grants valid_256(1) by (simp add: named_process_facts)
qed

lemma segment_no_bytes:
  assumes "segment_mapped name m p x p1"
  shows "bytes_at x (cmem p1) = None" and "\<And>k. bytes_at (ptr_add x k) (cmem p1) = None"
proof -
  obtain a h where "x = Ptr a 0" "objects (cmem p1) a = Some (Segment_Obj h)"
    using assms by (rule mapped_segment_object)
  then show "bytes_at x (cmem p1) = None" and "\<And>k. bytes_at (ptr_add x k) (cmem p1) = None"
    by (simp_all add: object_bytes_def)
qed



end
