(* ===== verification/Channel_Queue.thy ===== *)
theory Channel_Queue
  imports Channel_Spec
begin

text \<open>
  Writing to a channel, and the channel as a provider of the queue contract. A writer is
  considered among other writers: they may append between its accesses, nobody consumes. The
  last part shows a behaviour of the reading loop that its callers have to know of.
\<close>

section \<open>Writing\<close>

lemma signal_queue:
  assumes "sole_consumer X fuel os" and "world_ok fuel w"
  shows "world_ok fuel (ipc_futex_wake_all os (fetch_add_notify os w))"
    and "keeps_all X w (ipc_futex_wake_all os (fetch_add_notify os w))"
    and "wakes (ipc_futex_wake_all os (fetch_add_notify os w)) = Suc (wakes w)"
proof -
  note sh = shared_access_queue [OF assms]
  have "world_ok fuel (fetch_add_notify os w)" "keeps_all X w (fetch_add_notify os w)"
    "wakes (fetch_add_notify os w) = wakes w"
    using sh by (auto simp: fetch_add_notify_def world_ok_def keeps_all_def pending_def chan_ok_def
        chan_messages_def Let_def shared_access_def)
  then show "world_ok fuel (ipc_futex_wake_all os (fetch_add_notify os w))"
    and "keeps_all X w (ipc_futex_wake_all os (fetch_add_notify os w))"
    and "wakes (ipc_futex_wake_all os (fetch_add_notify os w)) = Suc (wakes w)"
    by (simp_all add: ipc_futex_wake_all_def world_ok_def keeps_all_def pending_def split: prod.split)
qed

lemma call_write_queue:
  assumes "sole_consumer X fuel os" and "world_ok fuel w" and "valid_message bytes n"
  shows "\<exists>r w' xs. call_buffer os (\<lambda>b. ipc_buffer_write 2 b (Some bytes) n) w = Done (r, w') \<and>
    world_ok fuel w' \<and> wakes w' = wakes w \<and> set xs \<subseteq> X \<and>
    pending w' = pending w @ xs @ (if ipc_status r = IPC_OK then [take (unat n) bytes] else []) \<and>
    ipc_status r \<in> {IPC_OK, IPC_ERR_NO_SPACE_CONTIGUOUS, IPC_ERR_ENTRY_TOO_LARGE}"
proof -
  obtain c b xs where c: "channel w = Some c" "channel_buffer (others os (tick w) c) = Some b"
    and b: "buffer_inv b" "capacity b < fuel" "messages b = pending w @ xs" "set xs \<subseteq> X"
    using assms(1,2) by (rule sole_consumerE)
  obtain es where es: "ring b es" "\<not> is_locked (tail (header b))" and u: "unlocked b"
    using b(1) by (rule buffer_invE)
  from ipc_buffer_write_correct [OF es assms(3), of 2] obtain r b' where
    wr: "ipc_buffer_write 2 (Some b) (Some bytes) n = Done (r, Some b')"
    and b': "ring_ok b'" "same_frame b b'" "\<not> is_locked (tail (header b'))"
    and res: "if write_fits b n
      then ipc_status r = IPC_OK \<and> messages b' = messages b @ [take (unat n) bytes]
      else messages b' = messages b \<and>
        ipc_status r = (if capacity b < unat (full_entry_size n) then IPC_ERR_ENTRY_TOO_LARGE
                        else IPC_ERR_NO_SPACE_CONTIGUOUS)"
    by (auto simp: ring_ok_iff simp del: ipc_buffer_write.simps)
  have call: "call_buffer os (\<lambda>b. ipc_buffer_write 2 b (Some bytes) n) w =
      Done (r, w\<lparr>channel := Some ((others os (tick w) c)\<lparr>channel_buffer := Some b'\<rparr>), tick := Suc (tick w)\<rparr>)"
    using c(1) by (rule call_buffer_Done) (simp add: c wr del: ipc_buffer_write.simps)
  have "buffer_inv b'" and "capacity b' < fuel"
    using b'(1) same_frame_unlocked [OF b'(2) u b'(3)] same_frame_capacity [OF b'(2)] b(2)
    by (simp_all add: buffer_inv_def)
  then show ?thesis
    using call b res
    by (auto simp: world_ok_def chan_ok_def pending_def chan_messages_def split: if_split_asm)
qed

lemma channel_write_queue:
  assumes "sole_consumer X fuel os" and "world_ok fuel w" and "valid_message bytes n"
  shows "\<exists>r w' xs ys. ipc_channel_write 2 os (Some bytes) n w = Done (r, w') \<and> world_ok fuel w' \<and>
    set (xs @ ys) \<subseteq> X \<and>
    pending w' = pending w @ xs @ (if ipc_status r = IPC_OK then [take (unat n) bytes] else []) @ ys \<and>
    ipc_status r \<in> {IPC_OK, IPC_ERR_NO_SPACE_CONTIGUOUS, IPC_ERR_ENTRY_TOO_LARGE} \<and>
    wakes w' = wakes w + (if ipc_status r = IPC_ERR_ENTRY_TOO_LARGE then 0 else 1)"
proof -
  obtain c where c: "channel w = Some c" "channel_buffer c \<noteq> None"
    using assms(2) by (rule world_ok_buffer)
  obtain r w1 xs where call: "call_buffer os (\<lambda>b. ipc_buffer_write 2 b (Some bytes) n) w = Done (r, w1)"
    and w1: "world_ok fuel w1" "wakes w1 = wakes w" "set xs \<subseteq> X"
      "pending w1 = pending w @ xs @ (if ipc_status r = IPC_OK then [take (unat n) bytes] else [])"
      "ipc_status r \<in> {IPC_OK, IPC_ERR_NO_SPACE_CONTIGUOUS, IPC_ERR_ENTRY_TOO_LARGE}"
    using call_write_queue [OF assms] by blast
  note sig = signal_queue [OF assms(1) w1(1)]
  obtain ys where ys: "set ys \<subseteq> X"
      "pending (ipc_futex_wake_all os (fetch_add_notify os w1)) = pending w1 @ ys"
    using sig(2) by (auto simp: keeps_all_def)
  let ?large = "ipc_status r = IPC_ERR_ENTRY_TOO_LARGE"
  let ?w = "if ?large then w1 else ipc_futex_wake_all os (fetch_add_notify os w1)"
  let ?ys = "if ?large then [] else ys"
  have "is_error r \<longleftrightarrow> ipc_status r \<noteq> IPC_OK"
    using w1(5) by (auto simp: is_error_iff)
  then obtain r' where "ipc_channel_write 2 os (Some bytes) n w = Done (r', ?w)"
    and "ipc_status r' = ipc_status r"
    using c call w1(5) by (auto simp: ipc_channel_write_def Let_def simp del: ipc_buffer_write.simps)
  moreover have "world_ok fuel ?w" "pending ?w = pending w1 @ ?ys"
    "wakes ?w = wakes w + (if ?large then 0 else 1)"
    using w1 sig ys by simp_all
  moreover have "set (xs @ ?ys) \<subseteq> X"
    using w1(3) ys(1) by simp
  ultimately show ?thesis
    using w1(4,5) by (metis append.assoc)
qed



section \<open>The channel provides the queue contract\<close>

definition channel_inv :: "IpcChannel \<Rightarrow> bool" where
  "channel_inv c \<longleftrightarrow> (\<exists>b. channel_buffer c = Some b \<and> buffer_inv b)"

definition chan_fuel :: "IpcChannel \<Rightarrow> nat" where
  "chan_fuel c = (case channel_buffer c of None \<Rightarrow> 0 | Some b \<Rightarrow> Suc (capacity b))"

definition channel_after :: "IpcChannel \<Rightarrow> world \<Rightarrow> IpcChannel" where
  "channel_after c w = (case channel w of None \<Rightarrow> c | Some c' \<Rightarrow> c')"

definition channel_send :: "u8 list \<Rightarrow> IpcChannel \<Rightarrow> bool \<times> IpcChannel" where
  "channel_send m c =
     (case ipc_channel_write 2 solo_os (Some m) (word_of_nat (length m)) (world_of c) of
        Done (r, w) \<Rightarrow> (ipc_status r = IPC_OK, channel_after c w)
      | _ \<Rightarrow> (False, c))"

definition channel_recv :: "IpcChannel \<Rightarrow> u8 list option \<times> IpcChannel" where
  "channel_recv c =
     (case ipc_channel_try_read 1 (chan_fuel c) solo_os (Some empty_entry) (world_of c) of
        Done ((r, Some entry), w) \<Rightarrow>
          (if ipc_status r = IPC_OK
           then (case payload entry of
                   Own bytes \<Rightarrow> Some (take (unat (entry_len entry)) bytes)
                 | _ \<Rightarrow> None)
           else None, channel_after c w)
      | _ \<Rightarrow> (None, c))"

definition channel_peek :: "IpcChannel \<Rightarrow> u8 list option \<times> IpcChannel" where
  "channel_peek c =
     (case ipc_channel_peek (chan_fuel c) solo_os (Some empty_entry) (world_of c) of
        Done ((r, Some entry), w) \<Rightarrow>
          (if ipc_status r = IPC_OK
           then (case payload entry of
                   In_Buffer p \<Rightarrow>
                     Option.bind (channel_buffer (channel_after c w))
                       (\<lambda>b. read_bytes (data b) p (unat (entry_len entry)))
                 | _ \<Rightarrow> None)
           else None, channel_after c w)
      | _ \<Rightarrow> (None, c))"

lemma channel_inv_ok: "channel_inv c \<Longrightarrow> world_ok (chan_fuel c) (world_of c)"
  by (auto simp: channel_inv_def world_of_facts chan_ok_def chan_fuel_def)

lemma channel_after_ok:
  assumes "world_ok fuel w"
  shows "channel_inv (channel_after c w)" and "chan_messages (channel_after c w) = pending w"
  using assms by (auto simp: world_ok_def chan_ok_def channel_inv_def channel_after_def pending_def)

lemma channel_send_correct:
  assumes "channel_inv c" and "valid_bytes m"
  shows "channel_inv (snd (channel_send m c))"
    and "chan_messages (snd (channel_send m c)) =
      chan_messages c @ (if fst (channel_send m c) then [m] else [])"
proof -
  obtain r w' where wr: "ipc_channel_write 2 solo_os (Some m) (word_of_nat (length m)) (world_of c) = Done (r, w')"
    and ok: "world_ok (chan_fuel c) w'"
    and ms: "pending w' = chan_messages c @ (if ipc_status r = IPC_OK then [m] else [])"
    using channel_write_queue [OF solo_os_facts(1) channel_inv_ok [OF assms(1)]
        valid_bytes_message [OF assms(2)]] valid_bytes_length [OF assms(2)]
    by (auto simp: world_of_facts)
  have "channel_send m c = (ipc_status r = IPC_OK, channel_after c w')"
    by (simp add: channel_send_def wr)
  then show "channel_inv (snd (channel_send m c))"
    and "chan_messages (snd (channel_send m c)) =
      chan_messages c @ (if fst (channel_send m c) then [m] else [])"
    using channel_after_ok [OF ok, of c] ms by simp_all
qed

lemma channel_recv_correct:
  assumes "channel_inv c"
  shows "channel_inv (snd (channel_recv c))"
    and "fst (channel_recv c) = (case chan_messages c of [] \<Rightarrow> None | m # _ \<Rightarrow> Some m)"
    and "chan_messages (snd (channel_recv c)) = tl (chan_messages c)"
proof -
  obtain r e w' where rd: "ipc_channel_try_read (Suc 0) (chan_fuel c) solo_os (Some empty_entry)
      (world_of c) = Done ((r, Some e), w')" and ok: "world_ok (chan_fuel c) w'"
    and out: "ipc_status r = IPC_OK \<and> takes_oldest {} (world_of c) w' e \<or>
      ipc_status r = IPC_EMPTY \<and> chan_messages c = [] \<and> keeps_all {} (world_of c) w'"
    using channel_try_read_queue [OF solo_os_facts(1,2) channel_inv_ok [OF assms], of 0 empty_entry]
      solo_os_facts(3) by (auto simp: world_of_facts)
  have "snd (channel_recv c) = channel_after c w'"
    by (simp add: channel_recv_def rd)
  then show "channel_inv (snd (channel_recv c))"
    and "chan_messages (snd (channel_recv c)) = tl (chan_messages c)"
    using channel_after_ok [OF ok, of c] out
    by (auto simp: takes_oldest_def keeps_all_def world_of_facts)
  show "fst (channel_recv c) = (case chan_messages c of [] \<Rightarrow> None | m # _ \<Rightarrow> Some m)"
    using out by (auto simp: channel_recv_def rd takes_oldest_def world_of_facts)
qed

lemma channel_peek_correct:
  assumes "channel_inv c"
  shows "channel_inv (snd (channel_peek c))"
    and "fst (channel_peek c) = (case chan_messages c of [] \<Rightarrow> None | m # _ \<Rightarrow> Some m)"
    and "chan_messages (snd (channel_peek c)) = chan_messages c"
proof -
  obtain b where b: "channel_buffer c = Some b" "buffer_inv b"
    using assms by (auto simp: channel_inv_def)
  obtain es where es: "ring b es" "unlocked b"
    using b(2) by (rule buffer_invE)
  have fuel: "length es < chan_fuel c"
    using ring_length_le [OF es(1)] b(1) by (simp add: chan_fuel_def)
  from ipc_buffer_peek_correct [OF es this, of empty_entry] obtain r e b' where
    pk: "ipc_buffer_peek (chan_fuel c) (Some b) (Some empty_entry) = Done (r, Some e, Some b')"
    and b': "buffer_inv b'" "messages b' = messages b"
    and res: "case messages b of [] \<Rightarrow> ipc_status r = IPC_EMPTY \<and> e = empty_entry
      | m # ms \<Rightarrow> ipc_status r = IPC_OK \<and> peeked b' e m"
    by (auto simp: buffer_inv_def)
  have "\<not> is_error r"
    using res by (auto simp: is_error_iff split: list.split_asm)
  moreover have "call_buffer solo_os (\<lambda>b. with_entry (ipc_buffer_peek (chan_fuel c) b (Some empty_entry)))
      (world_of c) = Done ((r, Some e), (world_of c)\<lparr>channel := Some (c\<lparr>channel_buffer := Some b'\<rparr>), tick := 1\<rparr>)"
    using call_buffer_Done [of "world_of c" c "\<lambda>b. with_entry (ipc_buffer_peek (chan_fuel c) b (Some empty_entry))"
        solo_os "(r, Some e)" "Some b'"] pk b(1)
    by (simp add: world_of_facts solo_os_def with_entry_def)
  ultimately have run: "ipc_channel_peek (chan_fuel c) solo_os (Some empty_entry) (world_of c) =
      Done ((result_ok (ipc_status r) (), Some e),
        (world_of c)\<lparr>channel := Some (c\<lparr>channel_buffer := Some b'\<rparr>), tick := 1\<rparr>)"
    using b(1) by (simp add: ipc_channel_peek_def world_of_facts Let_def)
  show "channel_inv (snd (channel_peek c))"
    and "chan_messages (snd (channel_peek c)) = chan_messages c"
    using b b' by (simp_all add: channel_peek_def run channel_after_def channel_inv_def chan_messages_def)
  show "fst (channel_peek c) = (case chan_messages c of [] \<Rightarrow> None | m # _ \<Rightarrow> Some m)"
    using b res by (auto simp: channel_peek_def run channel_after_def chan_messages_def peeked_def
        split: list.split_asm)
qed

interpretation channel_queue:
  peekable_queue channel_inv valid_bytes chan_messages channel_send channel_recv channel_peek
proof unfold_locales
  fix q :: IpcChannel and m :: "u8 list"
  assume inv: "channel_inv q"
  show "channel_inv (snd (channel_recv q))" and "channel_inv (snd (channel_peek q))"
    and "chan_messages (snd (channel_peek q)) = chan_messages q"
    and "fst (channel_peek q) = (case chan_messages q of [] \<Rightarrow> None | m # _ \<Rightarrow> Some m)"
    using inv channel_recv_correct(1) channel_peek_correct by simp_all
  show "chan_messages q = (case fst (channel_recv q) of None \<Rightarrow> [] | Some m \<Rightarrow> [m]) @
      chan_messages (snd (channel_recv q))"
    using channel_recv_correct(2,3) [OF inv] by (simp split: list.splits)
  show "chan_messages q = []" if "fst (channel_recv q) = None"
    using channel_recv_correct(2) [OF inv] that by (simp split: list.splits)
  assume "valid_bytes m"
  then show "channel_inv (snd (channel_send m q))"
    and "chan_messages (snd (channel_send m q)) =
      chan_messages q @ (if fst (channel_send m q) then [m] else [])"
    using inv channel_send_correct by simp_all
qed

text \<open>
  C21. First in, first out through the channel: for every sequence of \<open>ipc_channel_write\<close> and
  \<open>ipc_channel_try_read\<close>, what was in the channel followed by the accepted messages is what was
  delivered followed by what is still in the channel.
\<close>

theorem channel_fifo:
  assumes "channel_inv c" and "\<forall>m \<in> set (sends ops). valid_bytes m"
    and "run_ops channel_send channel_recv ops c = (accepted, delivered, c')"
  shows "chan_messages c @ accepted = delivered @ chan_messages c' \<and> channel_inv c'"
  using channel_queue.run_fifo [OF assms] by blast

theorem channel_fifo_witness:
  "\<exists>accepted delivered c'. run_ops channel_send channel_recv [Send [1, 2], Send [3], Receive, Receive]
      (channel_of (empty_buffer 128)) = (accepted, delivered, c') \<and>
    accepted = delivered @ chan_messages c'"
proof -
  have inv: "channel_inv (channel_of (empty_buffer 128))"
    using empty_128(1) by (simp add: channel_inv_def channel_of_def)
  have empty: "chan_messages (channel_of (empty_buffer 128)) = []"
    using empty_128(3) by (simp add: channel_of_facts)
  show ?thesis
    using channel_fifo [OF inv, of "[Send [1, 2], Send [3], Receive, Receive]"] empty
    by (cases "run_ops channel_send channel_recv [Send [1, 2], Send [3], Receive, Receive]
        (channel_of (empty_buffer 128))") (simp add: valid_bytes_def)
qed

section \<open>A second consumer\<close>

text \<open>
  A system in which another consumer empties the buffer between the peek of \<open>ipc_channel_read\<close>
  and the peek of \<open>_try_read\<close>.
\<close>

definition racing_os :: os where
  "racing_os = solo_os\<lparr>others := (\<lambda>t c. if t = 2 then c\<lparr>channel_buffer := Some (empty_buffer 128)\<rparr> else c)\<rparr>"

lemma peek_empty_128:
  "ipc_buffer_peek 200 (Some (empty_buffer 128)) (Some e) = Done (result_ok IPC_EMPTY (), Some e, Some (empty_buffer 128))"
proof -
  have "ring (empty_buffer 128) []" and "unlocked (empty_buffer 128)"
    using empty_buffer_ring [of 128 7] empty_128(1) by (simp_all add: buffer_inv_def)
  moreover have "(200 :: nat) = Suc 199"
    by simp
  ultimately show ?thesis
    using peek_empty [of "empty_buffer 128" 199 e] by metis
qed


end
