(* ===== verification/Jni_Spec.thy ===== *)
theory Jni_Spec
  imports Jni_Channel Init_Spec Channel_Queue
begin

text \<open>
  The native methods end to end: \<open>init\<close> combines the size proposal, the segment and the channel, and
  \<open>write\<close> and \<open>read\<close> carry Java arrays over the queue of the channel.
\<close>

section \<open>init\<close>

lemma positive_bound: "\<not> not_positive n \<Longrightarrow> unat n < 9223372036854775808"
proof -
  assume "\<not> not_positive n"
  then have "\<not> bit n 63"
    by (simp add: not_positive_def)
  have "take_bit 63 n = n"
  proof (rule bit_word_eqI)
    fix i
    assume "i < LENGTH(64)"
    then have "i < 63 \<or> i = 63"
      by auto
    then show "bit (take_bit 63 n) i \<longleftrightarrow> bit n i"
      using \<open>\<not> bit n 63\<close> by (auto simp: bit_take_bit_iff)
  qed
  then have "take_bit 63 (unat n) = unat n"
    by (metis unsigned_take_bit_eq)
  then show ?thesis
    using take_bit_nat_less_exp [of 63 "unat n"] by simp
qed

text \<open>The proposed size of a channel: the overhead and a power of two that is large enough.\<close>

lemma suggested_channel_size:
  assumes "unat c < 9223372036854775808"
  obtains n k where "ipc_channel_suggest_size c = Some n" and "unat n = 192 + 2 ^ k" and "unat c \<le> 2 ^ k"
proof (cases "c + 192 < 200")
  case True
  have "unat (c + 192) = unat c + 192"
    using assms by (simp add: unat_add_two64)
  then have "unat c < 8"
    using True by (simp add: word_less_nat_alt)
  then show ?thesis
    using that [of 200 3] True by (simp add: ipc_channel_suggest_size_def overhead_192 min_size_200 Let_def)
next
  case False
  show ?thesis
  proof (cases rule: next_power_cases [of c])
    case loops
    then show ?thesis
      using assms by simp
  next
    case (found p k)
    have "unat (p + 192) = 192 + 2 ^ k"
      using found(3,4) pow2_le_2p63 [of k] by (simp add: unat_add_two64)
    then show ?thesis
      using that found False by (simp add: ipc_channel_suggest_size_def overhead_192 min_size_200 Let_def)
  qed
qed

text \<open>The process between the mapping and the channel: the characters of the path are released.\<close>

lemma released:
  assumes ok: "store_ok (cmem p)" and env: "get_string_utf_chars env file p = (Ptr a 0, p1)"
    and seg: "segment_mapped file n p1 x p2"
  defines "q \<equiv> release_string_utf_chars (Ptr a 0) p2"
  shows "store_ok (cmem q)" and "fds q = fds p2" and "script (cmem q) = script (cmem p2)" and "x \<noteq> NULL"
    and "\<exists>c d. segment_object x q = Some \<lparr>segment_name = c, segment_size = n, segment_memory = Ptr (fresh (cmem p1)) 0\<rparr> \<and>
      object_bytes (cmem q) (fresh (cmem p1)) = Some d \<and> length d = unat n"
proof -
  have p1: "a = fresh (cmem p)" "fresh (cmem p1) = Suc a" "objects (cmem p1) = (objects (cmem p))(a \<mapsto> Name_Obj file)"
    using env by (auto simp: get_string_utf_chars_def Let_def split: if_split_asm)
  show "store_ok (cmem q)"
    using ok seg p1 by (auto simp: q_def store_ok_def segment_mapped_def Let_def)
  show "fds q = fds p2" and "script (cmem q) = script (cmem p2)"
    by (simp_all add: q_def)
  show "x \<noteq> NULL"
    using seg by (simp add: segment_mapped_def Let_def)
  show "\<exists>c d. segment_object x q = Some \<lparr>segment_name = c, segment_size = n, segment_memory = Ptr (fresh (cmem p1)) 0\<rparr> \<and>
      object_bytes (cmem q) (fresh (cmem p1)) = Some d \<and> length d = unat n"
    using seg p1 by (auto simp: q_def segment_mapped_def segment_object_def object_bytes_def Let_def)
qed

text \<open>What \<open>init\<close> returns where the segment is mapped.\<close>

definition channel_handed_out :: "ptr \<Rightarrow> u64 \<Rightarrow> bool \<Rightarrow> process \<Rightarrow> ptr \<Rightarrow> bool" where
  "channel_handed_out m c is_producer p q \<longleftrightarrow> (\<exists>h. channel_object (cmem p) q = Some h \<and> channel_header_ptr h = m \<and>
     (is_producer \<longrightarrow> (\<exists>ch b. channel_view (cmem p) h = Some ch \<and> notify ch = 0 \<and> chan_messages ch = [] \<and>
        channel_buffer ch = Some b \<and> buffer_inv b \<and> unat c \<le> capacity b)))"

lemma create_outcome:
  assumes ok: "store_ok (cmem q)" and d: "object_bytes (cmem q) a = Some d" and len: "length d = unat n"
    and n: "unat n = 192 + 2 ^ k" and c: "unat c \<le> 2 ^ k"
  shows "\<exists>r s. ipc_channel_create (Ptr a 0) n (cmem q) = Done (r, s) \<and>
    (if malloc_fails (cmem q) \<or> second_malloc_fails (cmem q) then \<not> is_ok r
     else \<exists>ch. r = result_ok IPC_OK ch \<and> ch \<noteq> NULL \<and> channel_handed_out (Ptr a 0) c True (q\<lparr>cmem := s\<rparr>) ch)"
proof (cases "malloc_fails (cmem q) \<or> second_malloc_fails (cmem q)")
  case True
  have "0 + unat n \<le> length d"
    using len by simp
  from channel_create_no_memory [OF ok d this n True] True show ?thesis
    by (fastforce simp: is_ok_def)
next
  case False
  then have m: "\<not> malloc_fails (cmem q)" "\<not> second_malloc_fails (cmem q)" and room: "0 + unat n \<le> length d"
    using len by auto
  obtain ch s v where res: "ipc_channel_create (Ptr a 0) n (cmem q) = Done (result_ok IPC_OK ch, s)"
    "channel_opened (Ptr a 0) (cmem q) ch s"
    "channel_view s \<lparr>channel_header_ptr = Ptr a 0, buffer_ptr = Ptr (fresh (cmem q)) 0\<rparr> = Some v"
    "channel_object s ch = Some \<lparr>channel_header_ptr = Ptr a 0, buffer_ptr = Ptr (fresh (cmem q)) 0\<rparr>"
    "notify v = 0" "chan_messages v = []" "chan_ok (Suc (2 ^ k)) v"
    "\<exists>b. channel_buffer v = Some b \<and> capacity b = 2 ^ k"
    by (rule channel_create_succeeds [OF ok d room n m])
  have "ch \<noteq> NULL"
    using res(4) by (auto simp: channel_object_def)
  moreover have "channel_handed_out (Ptr a 0) c True (q\<lparr>cmem := s\<rparr>) ch"
    unfolding channel_handed_out_def using res c by (auto simp: chan_ok_def)
  ultimately show ?thesis
    using res(1) False by auto
qed

lemma connect_outcome:
  assumes ok: "store_ok (cmem q)"
  shows "\<exists>r s. ipc_channel_connect (Ptr a 0) (cmem q) = Done (r, s) \<and>
    (if malloc_fails (cmem q) \<or> second_malloc_fails (cmem q) then \<not> is_ok r
     else \<exists>ch. r = result_ok IPC_OK ch \<and> ch \<noteq> NULL \<and> channel_handed_out (Ptr a 0) c False (q\<lparr>cmem := s\<rparr>) ch)"
proof -
  from channel_connect_cases [OF ok, of a 0] obtain r s where run: "ipc_channel_connect (Ptr a 0) (cmem q) = Done (r, s)"
    and res: "if malloc_fails (cmem q) \<or> second_malloc_fails (cmem q)
     then ipc_status r = IPC_ERR_SYSTEM \<and> objects s = objects (cmem q)
     else r = result_ok IPC_OK (Ptr (fresh (cmem q)) 0) \<and> channel_opened (Ptr a 0) (cmem q) (Ptr (fresh (cmem q)) 0) s \<and>
       fresh s = Suc (Suc (fresh (cmem q))) \<and> (\<forall>c < fresh (cmem q). objects s c = objects (cmem q) c)"
    by blast
  show ?thesis
    by (rule exI [of _ r], rule exI [of _ s])
      (use run res in \<open>auto simp: is_ok_def channel_handed_out_def channel_opened_def split: if_split_asm\<close>)
qed

text \<open>
  C26. \<open>init\<close> end to end, for every outcome of every system call and allocation: it returns, no
  descriptor stays open, and the address it returns is 0 or leads to the start of a new mapping; for
  a producer an empty channel is seen there whose capacity is at least the size that Java asked for.
  Where every call succeeds the address is not 0. (An existing segment has the size that was
  requested or \<open>ipc_mmap\<close> refuses it; of a new one the last hypothesis says that \<open>fstat\<close> reports the
  size \<open>ftruncate\<close> has just set.)
\<close>

theorem jni_init_end_to_end:
  assumes "store_ok (cmem p)" and "mapping_ok sys" and "munmap_ok sys"
    and "ipc_channel_suggest_size c = Some n"
    and "\<And>t fd m. sys_ftruncate sys t fd n = None \<Longrightarrow> sys_fstat sys (Suc t) fd = Inl m \<Longrightarrow> m = n"
  shows "\<exists>q p'. IpcChannel_init sys env (Some file) c is_producer p = Done (q, p') \<and> fds p' = fds p \<and>
    (q \<noteq> NULL \<longrightarrow> (\<exists>a. objects (cmem p) a = None \<and> channel_handed_out (Ptr a 0) c is_producer p' q)) \<and>
    (utf_chars env \<and> \<not> not_positive c \<and> grants sys n \<and> script (cmem p) = [] \<longrightarrow> q \<noteq> NULL)"
proof (cases "not_positive c \<or> \<not> utf_chars env")
  case True
  then show ?thesis
    by (auto simp: IpcChannel_init_def get_string_utf_chars_def)
next
  case False
  then have pos: "\<not> not_positive c" and utf: "utf_chars env"
    by auto
  obtain k where k: "unat n = 192 + 2 ^ k" "unat c \<le> 2 ^ k"
    using suggested_channel_size [OF positive_bound [OF pos]] assms(4) by (metis option.inject)
  have n0: "n \<noteq> 0" "n \<noteq> 0 \<and> unat n \<noteq> 0"
    using k(1) by auto
  obtain a p1 where env: "get_string_utf_chars env file p = (Ptr a 0, p1)"
    and p1: "store_ok (cmem p1)" "name_at (Ptr a 0) p1 = Some file" "fds p1 = fds p" "a = fresh (cmem p)"
      "fresh (cmem p1) = Suc a" "script (cmem p1) = script (cmem p)"
    using assms(1) utf by (auto simp: get_string_utf_chars_def store_ok_def name_at_def Let_def)
  let ?m = "Suc a"
  have new: "objects (cmem p) ?m = None"
    using assms(1) p1(4) by (simp add: store_ok_def)
  obtain r p2 where mmap: "ipc_mmap sys (Ptr a 0) n p1 = Done (r, p2)" "fds p2 = fds p1"
    and res: "case ipc_status r of
       IPC_OK \<Rightarrow> \<exists>x m. r = result_ok IPC_OK x \<and> segment_mapped file m p1 x p2 \<and>
         (m = n \<or> (\<exists>t fd. sys_ftruncate sys t fd n = None \<and> sys_fstat sys (Suc t) fd = Inl m))
     | IPC_ERR_SYSTEM \<Rightarrow> objects (cmem p2) = objects (cmem p1)
     | IPC_ERR_ILLEGAL_STATE \<Rightarrow> objects (cmem p2) = objects (cmem p1) \<and>
         (\<exists>b. error_body r = Some b \<and> me_existed b \<and> me_existing_size b \<noteq> n)
     | _ \<Rightarrow> False"
    using ipc_mmap_ok [OF p1(1,2) n0(1) assms(2,3)] by blast
  show ?thesis
  proof (cases "ipc_status r = IPC_OK")
    case False
    then have "is_error r"
      using res by (auto simp: is_error_iff split: IpcStatus.split_asm)
    moreover have "\<not> (grants sys n \<and> script (cmem p) = [])"
      using mmap_granted [OF p1(1,2) n0(1) assms(2,3)] mmap(1) False p1(6) by fastforce
    ultimately show ?thesis
      using pos utf env mmap assms(4) p1(3) by (auto simp: IpcChannel_init_def)
  next
    case True
    then obtain x where r: "r = result_ok IPC_OK x" and seg: "segment_mapped file n p1 x p2"
      using res assms(5) by auto
    let ?q = "release_string_utf_chars (Ptr a 0) p2"
    note rel = released [OF assms(1) env seg]
    obtain nm d where so: "segment_object x ?q = Some \<lparr>segment_name = nm, segment_size = n, segment_memory = Ptr ?m 0\<rparr>"
      and d: "object_bytes (cmem ?q) ?m = Some d" "length d = unat n"
      using rel(5) p1(5) by auto
    have granted: "\<not> (malloc_fails (cmem ?q) \<or> second_malloc_fails (cmem ?q))" if "grants sys n" and "script (cmem p) = []"
    proof -
      have "script (cmem p2) = []"
        using mmap_granted [OF p1(1,2) n0(1) assms(2,3) that(1)] that(2) mmap(1) p1(6) by auto
      then show ?thesis
        using rel(3) by (simp add: malloc_fails_def second_malloc_fails_def)
    qed
    have start: "IpcChannel_init sys env (Some file) c is_producer p =
        (if is_producer then
           bind_run (on_memory (ipc_channel_create (Ptr ?m 0) n) ?q)
             (\<lambda>(res, p). if is_ok res then access (union_result (content res)) (\<lambda>ch. Done (ch, p)) else Done (NULL, p))
         else
           bind_run (on_memory (ipc_channel_connect (Ptr ?m 0)) ?q)
             (\<lambda>(res, p). if is_ok res then access (union_result (content res)) (\<lambda>ch. Done (ch, p)) else Done (NULL, p)))"
      using pos env assms(4) mmap(1) r rel(4) so n0 by (simp add: IpcChannel_init_def is_error_iff cong: if_cong)
    have fds: "fds ?q = fds p"
      using rel(2) mmap(2) p1(3) by simp
    show ?thesis
    proof (cases is_producer)
      case True
      obtain r2 s2 where run: "ipc_channel_create (Ptr ?m 0) n (cmem ?q) = Done (r2, s2)"
        and out: "if malloc_fails (cmem ?q) \<or> second_malloc_fails (cmem ?q) then \<not> is_ok r2
          else \<exists>ch. r2 = result_ok IPC_OK ch \<and> ch \<noteq> NULL \<and> channel_handed_out (Ptr ?m 0) c True (?q\<lparr>cmem := s2\<rparr>) ch"
        using create_outcome [OF rel(1) d k] by blast
      show ?thesis
        using start run out granted True new fds by (auto simp: on_memory_def is_ok_def split: if_split_asm)
    next
      case False
      obtain r2 s2 where run: "ipc_channel_connect (Ptr ?m 0) (cmem ?q) = Done (r2, s2)"
        and out: "if malloc_fails (cmem ?q) \<or> second_malloc_fails (cmem ?q) then \<not> is_ok r2
          else \<exists>ch. r2 = result_ok IPC_OK ch \<and> ch \<noteq> NULL \<and> channel_handed_out (Ptr ?m 0) c False (?q\<lparr>cmem := s2\<rparr>) ch"
        using connect_outcome [OF rel(1)] by blast
      show ?thesis
        using start run out granted False new fds by (auto simp: on_memory_def is_ok_def split: if_split_asm)
    qed
  qed
qed

definition java_vm :: jni where
  "java_vm = \<lparr>utf_chars = True, byte_elements = True, new_byte_array = True\<rparr>"

definition plain_process :: process where
  "plain_process = \<lparr>cmem = \<lparr>objects = Map.empty, fresh = 0, script = [], errno = 0\<rparr>, fds = [], names = {}, calls = 0\<rparr>"

theorem jni_init_end_to_end_witness:
  "\<exists>q p' a. IpcChannel_init good_sys java_vm (Some ''/seg'') 64 True plain_process = Done (q, p') \<and>
    channel_handed_out (Ptr a 0) 64 True p' q"
proof -
  have "ipc_channel_suggest_size 64 = Some 256"
    by code_simp
  then show ?thesis
    using jni_init_end_to_end [of plain_process good_sys 64 256 java_vm "''/seg''" True] good_sys_facts good_sys_grants
    by (auto simp: plain_process_def store_ok_def good_sys_def java_vm_def not_positive_def)
qed

section \<open>write and read\<close>

text \<open>
  \<open>write\<close> releases what it has pinned and returns as if it had succeeded, whether the channel has
  taken the message or not.
\<close>

lemma jni_write_queue:
  assumes "sole_consumer X fuel os" and "world_ok fuel w" and "byte_elements env"
    and "arr \<noteq> []" and "length arr < 2147483648"
  shows "\<exists>r w' xs ys. IpcChannel_write 2 os env arr pinned w = Done (pinned, w') \<and> world_ok fuel w' \<and>
    set (xs @ ys) \<subseteq> X \<and> pending w' = pending w @ xs @ (if ipc_status r = IPC_OK then [arr] else []) @ ys \<and>
    ipc_channel_write 2 os (Some arr) (word_of_nat (length arr)) w = Done (r, w')"
proof -
  let ?n = "word_of_nat (length arr) :: u64"
  have n: "unat ?n = length arr"
    using assms(5) by (simp add: unat_of_nat_two64)
  then have "valid_message arr ?n"
    using assms(4,5) by (auto simp: valid_message_def word_unat_eq_iff)
  from channel_write_queue [OF assms(1,2) this] obtain r w' xs ys where
    "ipc_channel_write 2 os (Some arr) ?n w = Done (r, w')" "world_ok fuel w'" "set (xs @ ys) \<subseteq> X"
    "pending w' = pending w @ xs @ (if ipc_status r = IPC_OK then [arr] else []) @ ys"
    unfolding n by auto
  moreover have "channel w \<noteq> None"
    using assms(2) by (auto simp: world_ok_def)
  ultimately show ?thesis
    using assms(3) by (fastforce simp: IpcChannel_write_def get_elements_def release_elements_def)
qed

text \<open>
  The copy that retries returns only once the channel has taken the message, or refuses its size for
  good.
\<close>

lemma write_until_space_queue:
  assumes "sole_consumer X fuel os" and "world_ok fuel w" and "valid_message bytes n"
    and "write_until_space k 2 os (Some bytes) n w = Done (r, w')"
  shows "world_ok fuel w' \<and> ipc_status r \<in> {IPC_OK, IPC_ERR_ENTRY_TOO_LARGE} \<and> (\<exists>xs ys. set (xs @ ys) \<subseteq> X \<and>
    pending w' = pending w @ xs @ (if ipc_status r = IPC_OK then [take (unat n) bytes] else []) @ ys)"
  using assms(2,4)
proof (induction k arbitrary: w)
  case 0
  then show ?case by simp
next
  case (Suc k)
  obtain r1 w1 xs ys where run: "ipc_channel_write 2 os (Some bytes) n w = Done (r1, w1)"
    and ok: "world_ok fuel w1" and X: "set (xs @ ys) \<subseteq> X"
    and p: "pending w1 = pending w @ xs @ (if ipc_status r1 = IPC_OK then [take (unat n) bytes] else []) @ ys"
    and st: "ipc_status r1 \<in> {IPC_OK, IPC_ERR_NO_SPACE_CONTIGUOUS, IPC_ERR_ENTRY_TOO_LARGE}"
    using channel_write_queue [OF assms(1) Suc.prems(1) assms(3)] by blast
  show ?case
  proof (cases "ipc_status r1 = IPC_ERR_NO_SPACE_CONTIGUOUS")
    case True
    then have "write_until_space k 2 os (Some bytes) n w1 = Done (r, w')"
      using Suc.prems(2) run by (simp add: is_error_iff)
    from Suc.IH [OF ok this] obtain xs' ys' where rest: "world_ok fuel w'"
        "ipc_status r \<in> {IPC_OK, IPC_ERR_ENTRY_TOO_LARGE}" "set (xs' @ ys') \<subseteq> X"
        "pending w' = pending w1 @ xs' @ (if ipc_status r = IPC_OK then [take (unat n) bytes] else []) @ ys'"
      by blast
    show ?thesis
      using rest X p True
      by (intro conjI exI [of _ "xs @ ys @ xs'"] exI [of _ ys']) auto
  next
    case False
    then show ?thesis
      using Suc.prems(2) run ok X p st by auto
  qed
qed

lemma small_jsize:
  assumes "unat n < 2147483648"
  shows "sint (ucast (n :: u64) :: 32 word) = int (unat n)"
proof -
  have "ucast n = (word_of_int (int (unat n)) :: 32 word)"
    by simp
  then have "sint (ucast n :: 32 word) = signed_take_bit 31 (int (unat n))"
    by (simp only: sint_sbintrunc') simp
  also have "signed_take_bit 31 (int i) = int i" if "i < 2147483648" for i
    using that by (intro signed_take_bit_int_eq_self) simp_all
  note this [OF assms]
  finally show ?thesis .
qed


lemma late_os_works: "\<not> system_fails late_os"
  by (auto simp: system_fails_def allocation_fails_def late_os_def solo_os_def ipc_futex_wait_def
      ipc_futex_wait_linux_def Let_def elim!: access_DoneE)


end
