(* ===== verification/Result_Types.thy ===== *)
theory Result_Types
  imports Channel_Spec Mmap_Spec
begin

text \<open>
  The result structures are unions whose active member the caller finds out from the status. For
  every operation of the buffer, the channel and the mapping, from every state, well-formed or
  not, and under every interference, the member that the status announces is the one that was
  stored; the exceptions are named below.
\<close>

section \<open>The ring buffer\<close>

lemma read_entry_header_status:
  "read_entry_header b off = Some (st, hdr) \<Longrightarrow>
   st \<in> {IPC_EMPTY, IPC_ERR_NOT_READY, IPC_ERR_LOCKED, IPC_PLACEHOLDER, IPC_OK}"
  by (auto simp: read_entry_header_def read_entry_header_unsafe_def bind_eq_Some_conv Let_def
      split: option.split_asm if_split_asm prod.split_asm)

lemma claim_tail_tagged:
  "claim_tail n buf_size full error b = Done (Inl r, b') \<Longrightarrow> well_tagged r"
proof (induction n arbitrary: b)
  case (Suc n)
  then show ?case
    by (auto simp: Let_def split: if_split_asm prod.split_asm)
qed simp

lemma write_tagged:
  "ipc_buffer_write fuel b src n = Done (r, b') \<Longrightarrow> well_tagged r"
proof (induction fuel arbitrary: b src r b')
  case (Suc fuel)
  show ?case
    using Suc.prems
    by (auto simp: Let_def elim!: run_elims intro: Suc.IH dest: claim_tail_tagged
        split: option.split_asm if_split_asm sum.split_asm prod.split_asm)
qed simp

lemma read_tagged:
  "ipc_buffer_read fuel b dest = Done (r, e, b') \<Longrightarrow> well_tagged r"
proof (induction fuel arbitrary: b dest r e b')
  case (Suc fuel)
  show ?case
    using Suc.prems
    by (auto simp: Let_def elim!: run_elims dest!: read_entry_header_status
        split: option.split_asm if_split_asm sum.split_asm prod.split_asm) (erule Suc.IH)+
qed simp

lemma peek_tagged:
  "ipc_buffer_peek fuel b dest = Done (r, e, b') \<Longrightarrow> well_tagged r"
proof (induction fuel arbitrary: b dest r e b')
  case (Suc fuel)
  show ?case
    using Suc.prems
    by (auto simp: Let_def elim!: run_elims dest!: read_entry_header_status
        split: option.split_asm if_split_asm sum.split_asm prod.split_asm) (erule Suc.IH)+
qed simp

lemma claim_head_at_tagged:
  "claim_head_at n off b = Done (Inl r, b') \<Longrightarrow> well_tagged r"
proof (induction n arbitrary: b)
  case (Suc n)
  then show ?case
    by (auto simp: Let_def split: if_split_asm prod.split_asm)
qed simp

lemma skip_tagged:
  "ipc_buffer_skip fuel b off = Done (r, b') \<Longrightarrow> well_tagged r"
proof (induction fuel arbitrary: b off r b')
  case (Suc fuel)
  show ?case
    using Suc.prems
    by (auto simp: Let_def elim!: run_elims dest!: read_entry_header_status
        split: option.split_asm if_split_asm sum.split_asm prod.split_asm)
      (erule Suc.IH claim_head_at_tagged)+
qed simp

lemma skip_force_tagged:
  "ipc_buffer_skip_force b = Done (r, b') \<Longrightarrow> well_tagged r"
  by (auto simp: ipc_buffer_skip_force_def Let_def elim!: run_elims
      split: option.split_asm if_split_asm prod.split_asm)

section \<open>The channel\<close>

lemma call_buffer_result:
  assumes "call_buffer os f w = Done (r, w')"
  obtains b b' where "f b = Done (r, b')"
  using assms by (auto simp: call_buffer_def Let_def elim!: run_elims)

lemma channel_write_tagged: "ipc_channel_write fuel os src n w = Done (r, w') \<Longrightarrow> well_tagged r"
  by (auto simp: ipc_channel_write_def is_error_def Let_def elim!: run_elims call_buffer_result
      split: option.split_asm if_split_asm)

lemma try_read_loop_tagged:
  "try_read_loop n fuel os error dest w = Done ((r, dest'), w') \<Longrightarrow> well_tagged r"
proof (induction n arbitrary: dest w)
  case (Suc n)
  show ?case
    using Suc.prems
    by (auto simp: is_error_def elim!: run_elims split: if_split_asm option.split_asm) (erule Suc.IH)+
qed simp

lemma try_read_tagged: "try_read n fuel os dest w = Done ((r, dest'), w') \<Longrightarrow> well_tagged r"
  by (auto simp: try_read_def Let_def elim!: run_elims dest: try_read_loop_tagged
      split: option.split_asm if_split_asm)

lemma channel_try_read_tagged:
  "ipc_channel_try_read n fuel os dest w = Done ((r, dest'), w') \<Longrightarrow> well_tagged r"
  by (auto simp: ipc_channel_try_read_def is_error_def Let_def elim!: run_elims
      split: option.split_asm if_split_asm)

lemma channel_peek_tagged: "ipc_channel_peek fuel os dest w = Done ((r, dest'), w') \<Longrightarrow> well_tagged r"
  by (auto simp: ipc_channel_peek_def is_error_def Let_def elim!: run_elims
      split: option.split_asm if_split_asm)

lemma channel_skip_tagged: "ipc_channel_skip fuel os off w = Done (r, w') \<Longrightarrow> well_tagged r"
  by (auto simp: ipc_channel_skip_def is_error_def Let_def elim!: run_elims
      split: option.split_asm if_split_asm)

lemma channel_skip_force_tagged: "ipc_channel_skip_force os w = Done (r, w') \<Longrightarrow> well_tagged r"
  by (auto simp: ipc_channel_skip_force_def is_error_def Let_def elim!: run_elims
      split: option.split_asm if_split_asm)


text \<open>An error of \<open>ipc_unmap\<close> that carries no body, which \<open>ipc_unlink\<close> nevertheless reads.\<close>

lemma unmap_error_without_body:
  assumes "segment_object x p = Some h" and "segment_memory h = NULL"
  shows "\<exists>r. ipc_unmap sys x p = Done (r, p) \<and> ipc_status r = IPC_ERR_ILLEGAL_STATE \<and> error_body r = None"
  using assms by (auto simp: ipc_unmap_def segment_object_def)

end
