(* ===== verification/Interleaving.thy ===== *)
theory Interleaving
  imports Buffer_Write Buffer_Read
begin

text \<open>
  The ring buffer under any number of threads. A thread's operation is cut at every access to
  shared memory: each atomic load, each compare-and-exchange, each plain load of a header field,
  each byte that is copied out and each store into the data area is one step, and steps of
  different threads interleave in any order. (The atomic operations of the code are sequentially
  consistent; a plain access is taken to happen between the atomic ones around it.)

  A thread's position is a \<open>pc\<close>: the access it makes next, with its local variables.
\<close>

section \<open>Threads\<close>

text \<open>What a consumer does with the entry it has locked; the number is the size of \<open>dest\<close>.\<close>

datatype task = Reading u64 | Peeking | Skipping u64

type_synonym stores = "(nat \<times> u8 list) list"

datatype pc =
    Idle "IpcStatus option"
  | Write_Start "u8 list" u64
  | Write_Tail "u8 list" u64
  | Write_Head "u8 list" u64 u64
  | Write_Lock "u8 list" u64 u64 u64
  | Write_Store "u8 list" u64 u64 bool stores
  | Write_Commit "u8 list" u64 u64 bool
  | Take_Head task
  | Take_Lock task u64
  | Take_Tail task u64
  | Take_Seq task u64
  | Take_Payload task u64
  | Take_Size task u64 u64
  | Take_Copy u64 u64 u64 u64 "u8 list"
  | Take_Commit task u64 u64 u64 "u8 list"
  | Take_Unlock task u64 IpcStatus
  | Force_Head
  | Force_Tail u64
  | Force_Size u64 nat
  | Force_Swap u64 u64
  | Crashed

text \<open>What a step means for the queue, for the auxiliary record of the run.\<close>

datatype event = Silent | Accepted "u8 list" | Taken "u8 list" | Dropped

section \<open>One step of a thread\<close>

text \<open>The stores of a writer in the order of the code, the copy of the message byte by byte.\<close>

definition entry_stores :: "bool \<Rightarrow> u64 \<Rightarrow> nat \<Rightarrow> u64 \<Rightarrow> u64 \<Rightarrow> u8 list \<Rightarrow> u64 \<Rightarrow> stores" where
  "entry_stores placeholder t p wrap_space full bytes n =
     (if placeholder then [(p + 8, le_bytes 0), (p + 16, le_bytes wrap_space)]
      else map (\<lambda>i. (p + 24 + i, [bytes ! i])) [0..<unat n] @ [(p + 16, le_bytes full), (p + 8, le_bytes n)]) @
     [(p, le_bytes t)]"

fun write_step :: "pc \<Rightarrow> IpcBuffer \<Rightarrow> pc \<times> IpcBuffer \<times> event" where
  "write_step (Write_Start bytes n) b =
     (if n = 0 then (Idle (Some IPC_ERR_INVALID_ARGUMENT), b, Silent)
      else if data_size (header b) < full_entry_size n then (Idle (Some IPC_ERR_ENTRY_TOO_LARGE), b, Silent)
      else (Write_Tail bytes n, b, Silent))"
| "write_step (Write_Tail bytes n) b =
     (let t = tail (header b)
      in if is_locked t then (Idle (Some IPC_ERR_LOCKED), b, Silent)
         else (Write_Head bytes n t, b, Silent))"
| "write_step (Write_Head bytes n t) b =
     (let h = UNLOCK (read_head b);
          used = t - h;
          free_space = data_size (header b) - used
      in if free_space < full_entry_size n then (Idle (Some IPC_ERR_NO_SPACE_CONTIGUOUS), b, Silent)
         else (Write_Lock bytes n t h, b, Silent))"
| "write_step (Write_Lock bytes n t h) b =
     (let buf_size = data_size (header b);
          rel_tail = RELATIVE t buf_size;
          wrap_space = buf_size - rel_tail;
          full = full_entry_size n;
          placeholder = wrap_space < full + sizeof_EntryHeader;
          (ok, b') = lock_tail t b
      in if ok then (Write_Store bytes n t placeholder
              (entry_stores placeholder t (unat rel_tail) wrap_space full bytes n), b', Silent)
         else (Write_Tail bytes n, b', Silent))"
| "write_step (Write_Store bytes n t placeholder []) b = (Write_Commit bytes n t placeholder, b, Silent)"
| "write_step (Write_Store bytes n t placeholder ((p, bs) # rest)) b =
     (case write_bytes (data b) p bs of
        None \<Rightarrow> (Crashed, b, Silent)
      | Some d \<Rightarrow> (Write_Store bytes n t placeholder rest, b\<lparr>data := d\<rparr>, Silent))"
| "write_step (Write_Commit bytes n t placeholder) b =
     (case load_u64 (data b) (unat (RELATIVE t (data_size (header b))) + 16) of
        None \<Rightarrow> (Crashed, b, Silent)
      | Some es \<Rightarrow>
          (let (ok, b') = advance_tail t es b
           in if \<not> ok then (Idle (Some IPC_ERR_ILLEGAL_STATE), b', Silent)
              else if placeholder then (Write_Start bytes n, b', Silent)
              else (Idle (Some IPC_OK), b', Accepted (take (unat n) bytes))))"
| "write_step p b = (p, b, Silent)"

text \<open>\<open>ipc_buffer_read\<close>, \<open>ipc_buffer_peek\<close> and \<open>ipc_buffer_skip\<close>, which share their first half.\<close>

fun take_step :: "pc \<Rightarrow> IpcBuffer \<Rightarrow> pc \<times> IpcBuffer \<times> event" where
  "take_step (Take_Head task) b =
     (let h = read_head b
      in if is_locked h then (Idle (Some IPC_ERR_LOCKED), b, Silent)
         else (case task of
             Skipping off \<Rightarrow>
               if UNLOCK h \<noteq> off then (Idle (Some IPC_ERR_OFFSET_MISMATCH), b, Silent)
               else (Take_Lock task h, b, Silent)
           | _ \<Rightarrow> (Take_Lock task h, b, Silent)))"
| "take_step (Take_Lock task h) b =
     (let (ok, b') = lock_head h b
      in (if ok then Take_Tail task h else Take_Head task, b', Silent))"
| "take_step (Take_Tail task h) b =
     (let t = tail (header b)
      in if UNLOCK h = UNLOCK t then (Take_Unlock task h IPC_EMPTY, b, Silent)
         else if is_locked t then (Take_Unlock task h IPC_ERR_NOT_READY, b, Silent)
         else (Take_Seq task h, b, Silent))"
| "take_step (Take_Seq task h) b =
     (case load_u64 (data b) (unat (RELATIVE (UNLOCK h) (data_size (header b)))) of
        None \<Rightarrow> (Crashed, b, Silent)
      | Some sq \<Rightarrow>
          if sq = h then (Take_Payload task h, b, Silent)
          else (Take_Unlock task h (if is_locked h then IPC_ERR_LOCKED else IPC_ERR_NOT_READY), b, Silent))"
| "take_step (Take_Payload task h) b =
     (case load_u64 (data b) (unat (RELATIVE (UNLOCK h) (data_size (header b))) + 8) of
        None \<Rightarrow> (Crashed, b, Silent)
      | Some ps \<Rightarrow> (Take_Size task h ps, b, Silent))"
| "take_step (Take_Size task h ps) b =
     (case load_u64 (data b) (unat (RELATIVE (UNLOCK h) (data_size (header b))) + 16) of
        None \<Rightarrow> (Crashed, b, Silent)
      | Some es \<Rightarrow>
          if ps = 0 then (Take_Commit task h ps es [], b, Silent)
          else (case task of
              Reading cap \<Rightarrow>
                if cap < ps then (Take_Unlock task h IPC_ERR_TOO_SMALL, b, Silent)
                else (Take_Copy cap h ps es [], b, Silent)
            | Peeking \<Rightarrow> (Take_Unlock task h IPC_OK, b, Silent)
            | Skipping off \<Rightarrow> (Take_Commit task h ps es [], b, Silent)))"
| "take_step (Take_Copy cap h ps es acc) b =
     (if length acc < unat ps then
        (case read_bytes (data b) (unat (RELATIVE h (data_size (header b))) + 24 + length acc) 1 of
           None \<Rightarrow> (Crashed, b, Silent)
         | Some bs \<Rightarrow> (Take_Copy cap h ps es (acc @ bs), b, Silent))
      else (Take_Commit (Reading cap) h ps es acc, b, Silent))"
| "take_step (Take_Commit task h ps es acc) b =
     (let (ok, b') = advance_head h es b
      in if \<not> ok then (Idle (Some IPC_ERR_ILLEGAL_STATE), b', Silent)
         else if ps = 0 then (Take_Head task, b', Dropped)
         else (Idle (Some IPC_OK), b', case task of Reading cap \<Rightarrow> Taken acc | _ \<Rightarrow> Dropped))"
| "take_step (Take_Unlock task h st) b =
     (let (ok, b') = unlock_head h b
      in (Idle (Some (if ok then st else IPC_ERR_ILLEGAL_STATE)), b', Silent))"
| "take_step p b = (p, b, Silent)"

fun force_step :: "pc \<Rightarrow> IpcBuffer \<Rightarrow> pc \<times> IpcBuffer \<times> event" where
  "force_step Force_Head b = (Force_Tail (UNLOCK (read_head b)), b, Silent)"
| "force_step (Force_Tail h) b =
     (if UNLOCK h = UNLOCK (tail (header b)) then (Idle (Some IPC_EMPTY), b, Silent)
      else (Force_Size h (unat (RELATIVE (UNLOCK h) (data_size (header b)))), b, Silent))"
| "force_step (Force_Size h p) b =
     (case load_u64 (data b) (p + 16) of
        None \<Rightarrow> (Crashed, b, Silent)
      | Some es \<Rightarrow> (Force_Swap h es, b, Silent))"
| "force_step (Force_Swap h es) b =
     (let (ok, h', _) = compare_exchange (head (header b)) h (h + es)
      in if ok then (Idle (Some IPC_OK), set_head h' b, Dropped)
         else (Idle (Some IPC_ALREADY_SKIPPED), set_head h' b, Silent))"
| "force_step p b = (p, b, Silent)"

fun next_step :: "pc \<Rightarrow> IpcBuffer \<Rightarrow> pc \<times> IpcBuffer \<times> event" where
  "next_step (Idle st) b = (Idle st, b, Silent)"
| "next_step Crashed b = (Crashed, b, Silent)"
| "next_step Force_Head b = force_step Force_Head b"
| "next_step (Force_Tail h) b = force_step (Force_Tail h) b"
| "next_step (Force_Size h p) b = force_step (Force_Size h p) b"
| "next_step (Force_Swap h es) b = force_step (Force_Swap h es) b"
| "next_step (Write_Start bytes n) b = write_step (Write_Start bytes n) b"
| "next_step (Write_Tail bytes n) b = write_step (Write_Tail bytes n) b"
| "next_step (Write_Head bytes n t) b = write_step (Write_Head bytes n t) b"
| "next_step (Write_Lock bytes n t h) b = write_step (Write_Lock bytes n t h) b"
| "next_step (Write_Store bytes n t ph st) b = write_step (Write_Store bytes n t ph st) b"
| "next_step (Write_Commit bytes n t ph) b = write_step (Write_Commit bytes n t ph) b"
| "next_step p b = take_step p b"

section \<open>Runs\<close>

text \<open>
  The shared buffer, the position of every thread, and the auxiliary variables: how many bytes
  have been appended in all, the messages accepted and the messages taken out, in order. The last
  three record the run and never influence it.
\<close>

record config =
  shared :: IpcBuffer
  threads :: "nat \<Rightarrow> pc"
  total :: nat
  accepted :: "u8 list list"
  taken :: "u8 list list"

definition dropped :: "IpcBuffer \<Rightarrow> IpcBuffer \<Rightarrow> u8 list list" where
  "dropped b b' = take (length (messages b) - length (messages b')) (messages b)"

definition after_step :: "nat \<Rightarrow> pc \<times> IpcBuffer \<times> event \<Rightarrow> config \<Rightarrow> config" where
  "after_step i res c =
     (case res of (p, b, ev) \<Rightarrow>
        c\<lparr>shared := b, threads := (threads c)(i := p),
          total := total c + unat (tail_of b - tail_of (shared c)),
          accepted := accepted c @ (case ev of Accepted m \<Rightarrow> [m] | _ \<Rightarrow> []),
          taken := taken c @ (case ev of Taken m \<Rightarrow> [m] | Dropped \<Rightarrow> dropped (shared c) b | _ \<Rightarrow> [])\<rparr>)"

text \<open>The calls a thread may make: the message a writer passes lies in memory.\<close>

fun call_ok :: "pc \<Rightarrow> bool" where
  "call_ok (Write_Start bytes n) \<longleftrightarrow> valid_message bytes n"
| "call_ok (Take_Head (Skipping off)) \<longleftrightarrow> is_aligned off"
| "call_ok (Take_Head task) \<longleftrightarrow> True"
| "call_ok Force_Head \<longleftrightarrow> True"
| "call_ok p \<longleftrightarrow> False"

definition initial_config :: "u64 \<Rightarrow> u8 list \<Rightarrow> config" where
  "initial_config n d =
     \<lparr>shared = \<lparr>header = \<lparr>head = 0, data_size = n, tail = 0\<rparr>, data = d\<rparr>,
      threads = (\<lambda>_. Idle None), total = 0, accepted = [], taken = []\<rparr>"

inductive reachable :: "u64 \<Rightarrow> u8 list \<Rightarrow> config \<Rightarrow> bool" for n d where
  start: "is_power_of_2 n = Some True \<Longrightarrow> unat n \<le> length d \<Longrightarrow> reachable n d (initial_config n d)"
| call: "reachable n d c \<Longrightarrow> threads c i = Idle st \<Longrightarrow> call_ok p \<Longrightarrow>
    reachable n d (c\<lparr>threads := (threads c)(i := p)\<rparr>)"
| step: "reachable n d c \<Longrightarrow> reachable n d (after_step i (next_step (threads c i) (shared c)) c)"

end
