(* ===== verification/Interleaving_Inv.thy ===== *)
theory Interleaving_Inv
  imports Interleaving
begin

text \<open>
  The invariant of the interleaved ring buffer. Each position of a thread has an assertion about
  the shared buffer; every step establishes the assertion of its own next position and keeps those
  of all other threads. As long as fewer than \<open>2\<^sup>6\<^sup>4\<close> bytes have been appended since the creation
  of the buffer, the cursors do not wrap around and only grow.
\<close>

section \<open>Assertions\<close>

text \<open>Stores performed one after the other.\<close>

fun run_stores :: "stores \<Rightarrow> u8 list \<Rightarrow> u8 list option" where
  "run_stores [] d = Some d"
| "run_stores ((p, bs) # rest) d = Option.bind (write_bytes d p bs) (run_stores rest)"

text \<open>
  A writer that holds \<open>tail\<close>: its pending stores lie in a free region behind the entries, and once
  they are performed the region holds the entry it is going to publish.
\<close>

definition claims :: "u8 list \<Rightarrow> u64 \<Rightarrow> u64 \<Rightarrow> bool \<Rightarrow> stores \<Rightarrow> IpcBuffer \<Rightarrow> EntryHeader \<Rightarrow> u8 list \<Rightarrow> bool" where
  "claims bytes n t placeholder sts b e d' \<longleftrightarrow>
     run_stores sts (data b) = Some d' \<and>
     entry_at d' (ring_pos (capacity b) t) = Some e \<and> entry_ok (capacity b) t e \<and>
     is_placeholder e = placeholder \<and>
     (\<not> placeholder \<longrightarrow> payload_bytes d' (capacity b) e = take (unat n) bytes) \<and>
     span (entries b) + esize e \<le> capacity b \<and>
     (\<forall>(p, bs) \<in> set sts. ring_pos (capacity b) t \<le> p \<and> p + length bs \<le> ring_pos (capacity b) t + esize e)"

definition first_entry :: "IpcBuffer \<Rightarrow> EntryHeader \<Rightarrow> bool" where
  "first_entry b e \<longleftrightarrow> entries b \<noteq> [] \<and> hd (entries b) = e"

definition holds_head :: "u64 \<Rightarrow> IpcBuffer \<Rightarrow> bool" where
  "holds_head h b \<longleftrightarrow> head (header b) = LOCK h \<and> \<not> is_locked h"

definition holds_tail :: "u64 \<Rightarrow> IpcBuffer \<Rightarrow> bool" where
  "holds_tail t b \<longleftrightarrow> tail (header b) = LOCK t \<and> \<not> is_locked t"

fun asserts :: "pc \<Rightarrow> IpcBuffer \<Rightarrow> bool" where
  "asserts (Idle st) b \<longleftrightarrow> st \<noteq> Some IPC_ERR_ILLEGAL_STATE"
| "asserts (Write_Start bytes n) b \<longleftrightarrow> valid_message bytes n"
| "asserts (Write_Tail bytes n) b \<longleftrightarrow> valid_message bytes n \<and> unat (full_entry_size n) \<le> capacity b"
| "asserts (Write_Head bytes n t) b \<longleftrightarrow> valid_message bytes n \<and> unat (full_entry_size n) \<le> capacity b \<and>
     \<not> is_locked t \<and> unat t \<le> unat (tail_of b)"
| "asserts (Write_Lock bytes n t h) b \<longleftrightarrow> valid_message bytes n \<and> unat (full_entry_size n) \<le> capacity b \<and>
     \<not> is_locked t \<and> unat t \<le> unat (tail_of b) \<and> unat h \<le> unat (head_of b) \<and>
     (unat h \<le> unat t \<longrightarrow> unat t - unat h + unat (full_entry_size n) \<le> capacity b)"
| "asserts (Write_Store bytes n t placeholder sts) b \<longleftrightarrow> valid_message bytes n \<and> holds_tail t b \<and>
     (\<exists>e d'. claims bytes n t placeholder sts b e d')"
| "asserts (Write_Commit bytes n t placeholder) b \<longleftrightarrow> valid_message bytes n \<and> holds_tail t b \<and>
     (\<exists>e d'. claims bytes n t placeholder [] b e d')"
| "asserts (Take_Head task) b \<longleftrightarrow> True"
| "asserts (Take_Lock task h) b \<longleftrightarrow> \<not> is_locked h"
| "asserts (Take_Tail task h) b \<longleftrightarrow> holds_head h b"
| "asserts (Take_Seq task h) b \<longleftrightarrow> holds_head h b \<and> (\<exists>e. first_entry b e)"
| "asserts (Take_Payload task h) b \<longleftrightarrow> holds_head h b \<and> (\<exists>e. first_entry b e)"
| "asserts (Take_Size task h ps) b \<longleftrightarrow> holds_head h b \<and> (\<exists>e. first_entry b e \<and> payload_size e = ps)"
| "asserts (Take_Copy cap h ps es acc) b \<longleftrightarrow> holds_head h b \<and> ps \<noteq> 0 \<and> length acc \<le> unat ps \<and>
     (\<exists>e. first_entry b e \<and> payload_size e = ps \<and> entry_size e = es \<and>
        acc = take (length acc) (payload_bytes (data b) (capacity b) e))"
| "asserts (Take_Commit task h ps es acc) b \<longleftrightarrow> holds_head h b \<and>
     (\<exists>e. first_entry b e \<and> payload_size e = ps \<and> entry_size e = es \<and>
        (case task of Reading cap \<Rightarrow> ps \<noteq> 0 \<longrightarrow> acc = payload_bytes (data b) (capacity b) e | _ \<Rightarrow> True))"
| "asserts (Take_Unlock task h st) b \<longleftrightarrow> holds_head h b \<and> st \<noteq> IPC_ERR_ILLEGAL_STATE"
| "asserts Force_Head b \<longleftrightarrow> True"
| "asserts (Force_Tail h) b \<longleftrightarrow> \<not> is_locked h \<and> unat h \<le> unat (head_of b) \<and>
     (ring_pos (capacity b) h = 0 \<or> ring_pos (capacity b) h + 24 \<le> capacity b)"
| "asserts (Force_Size h p) b \<longleftrightarrow> \<not> is_locked h \<and> unat h \<le> unat (head_of b) \<and>
     p = ring_pos (capacity b) h \<and> p + 24 \<le> length (data b) \<and> (h = head_of b \<longrightarrow> entries b \<noteq> [])"
| "asserts (Force_Swap h es) b \<longleftrightarrow> \<not> is_locked h \<and> unat h \<le> unat (head_of b) \<and>
     (h = head_of b \<longrightarrow> (\<exists>e. first_entry b e \<and> entry_size e = es))"
| "asserts Crashed b \<longleftrightarrow> False"

text \<open>The positions at which a thread holds a lock.\<close>

fun owns_head :: "pc \<Rightarrow> bool" where
  "owns_head (Take_Tail task h) \<longleftrightarrow> True"
| "owns_head (Take_Seq task h) \<longleftrightarrow> True"
| "owns_head (Take_Payload task h) \<longleftrightarrow> True"
| "owns_head (Take_Size task h ps) \<longleftrightarrow> True"
| "owns_head (Take_Copy cap h ps es acc) \<longleftrightarrow> True"
| "owns_head (Take_Commit task h ps es acc) \<longleftrightarrow> True"
| "owns_head (Take_Unlock task h st) \<longleftrightarrow> True"
| "owns_head p \<longleftrightarrow> False"

fun owns_tail :: "pc \<Rightarrow> bool" where
  "owns_tail (Write_Store bytes n t placeholder sts) \<longleftrightarrow> True"
| "owns_tail (Write_Commit bytes n t placeholder) \<longleftrightarrow> True"
| "owns_tail p \<longleftrightarrow> False"

lemma owner_locks:
  "asserts p b \<Longrightarrow> owns_head p \<Longrightarrow> is_locked (head (header b))"
  "asserts p b \<Longrightarrow> owns_tail p \<Longrightarrow> is_locked (tail (header b))"
  by (cases p; simp add: holds_head_def holds_tail_def)+

text \<open>The buffer itself: well-formed, its cursors the numbers of bytes taken and appended.\<close>

definition buffer_ok :: "IpcBuffer \<Rightarrow> nat \<Rightarrow> bool" where
  "buffer_ok b tot \<longleftrightarrow> ring b (entries b) \<and> unat (tail_of b) = tot \<and>
     unat (head_of b) + span (entries b) = tot \<and> (tot \<noteq> 0 \<longrightarrow> 24 \<le> capacity b)"

lemma buffer_okD:
  assumes "buffer_ok b tot"
  shows "ring b (entries b)" and "unat (tail_of b) = tot" and "unat (head_of b) + span (entries b) = tot"
    and "span (entries b) \<le> capacity b" and "capacity b \<le> length (data b)"
    and "ring_pos (capacity b) (tail_of b) = 0 \<or> ring_pos (capacity b) (tail_of b) + 24 \<le> capacity b"
    and "tot \<noteq> 0 \<Longrightarrow> 24 \<le> capacity b"
  using assms unfolding buffer_ok_def ring_def by blast+

definition config_inv :: "config \<Rightarrow> bool" where
  "config_inv c \<longleftrightarrow> buffer_ok (shared c) (total c) \<and> accepted c = taken c @ messages (shared c) \<and>
     (\<forall>i. asserts (threads c i) (shared c)) \<and>
     (\<forall>i j. owns_head (threads c i) \<longrightarrow> owns_head (threads c j) \<longrightarrow> i = j) \<and>
     (\<forall>i j. owns_tail (threads c i) \<longrightarrow> owns_tail (threads c j) \<longrightarrow> i = j)"

section \<open>What a step may do to the other threads\<close>

definition same_shape :: "IpcBuffer \<Rightarrow> IpcBuffer \<Rightarrow> bool" where
  "same_shape b b' \<longleftrightarrow> data_size (header b') = data_size (header b) \<and> length (data b') = length (data b)"

text \<open>
  The queue only loses entries at the front, in which case \<open>head\<close> grows, and only gains entries at
  the back; the bytes of the entries that stay do not change.
\<close>

definition evolves :: "IpcBuffer \<Rightarrow> IpcBuffer \<Rightarrow> bool" where
  "evolves b b' \<longleftrightarrow> same_shape b b' \<and> unat (head_of b) \<le> unat (head_of b') \<and>
     unat (tail_of b) \<le> unat (tail_of b') \<and>
     (head_of b' = head_of b \<longrightarrow> (\<exists>fs. entries b' = entries b @ fs) \<and>
        (\<forall>e \<in> set (entries b). payload_bytes (data b') (capacity b) e = payload_bytes (data b) (capacity b) e))"

definition keeps_head :: "IpcBuffer \<Rightarrow> IpcBuffer \<Rightarrow> bool" where
  "keeps_head b b' \<longleftrightarrow> (is_locked (head (header b)) \<longrightarrow> head (header b') = head (header b))"

definition keeps_tail :: "IpcBuffer \<Rightarrow> IpcBuffer \<Rightarrow> bool" where
  "keeps_tail b b' \<longleftrightarrow> (is_locked (tail (header b)) \<longrightarrow>
     tail (header b') = tail (header b) \<and> data b' = data b \<and> span (entries b') \<le> span (entries b))"

lemma same_shape_capacity: "same_shape b b' \<Longrightarrow> capacity b' = capacity b"
  by (simp add: same_shape_def capacity_def)

lemma first_entry_stays:
  assumes "evolves b b'" and "head_of b' = head_of b" and "first_entry b e"
  shows "first_entry b' e" and "payload_bytes (data b') (capacity b) e = payload_bytes (data b) (capacity b) e"
  using assms by (auto simp: evolves_def first_entry_def hd_append)

lemma holds_head_stays:
  assumes "keeps_head b b'" and "holds_head h b"
  shows "holds_head h b'" and "head_of b' = head_of b"
  using assms by (auto simp: keeps_head_def holds_head_def)

lemma claims_stays:
  assumes "evolves b b'" and "keeps_tail b b'" and "holds_tail t b" and "claims bytes n t ph sts b e d'"
  shows "claims bytes n t ph sts b' e d'" and "holds_tail t b'"
  using assms same_shape_capacity [of b b']
  by (auto simp: claims_def keeps_tail_def holds_tail_def evolves_def)

lemma claims_set_tail:
  "entries (set_tail x b) = entries b \<Longrightarrow> claims bytes n t ph sts (set_tail x b) = claims bytes n t ph sts b"
  by (simp add: claims_def fun_eq_iff)

lemma asserts_stable:
  assumes a: "asserts p b" and ev: "evolves b b'" and kh: "owns_head p \<Longrightarrow> keeps_head b b'"
    and kt: "owns_tail p \<Longrightarrow> keeps_tail b b'"
  shows "asserts p b'"
proof -
  have shape: "same_shape b b'" and mono: "unat (head_of b) \<le> unat (head_of b')" "unat (tail_of b) \<le> unat (tail_of b')"
    using ev by (simp_all add: evolves_def)
  note cap = same_shape_capacity [OF shape]
  have len: "length (data b') = length (data b)"
    using shape by (simp add: same_shape_def)
  have still: "head_of b' = head_of b" if "unat h \<le> unat (head_of b)" and "h = head_of b'" for h
    using that mono(1) by (simp add: word_unat_eq_iff)
  note head_stays = holds_head_stays [OF kh]
  note entry_stays = first_entry_stays [OF ev]
  show ?thesis
  proof (cases p)
    case (Force_Size h pos)
    then have "entries b' \<noteq> []" if "h = head_of b'"
      using a still [OF _ that] that ev by (auto simp: evolves_def)
    then show ?thesis
      using Force_Size a mono cap len by simp
  next
    case (Force_Swap h es)
    then have "\<exists>e. first_entry b' e \<and> entry_size e = es" if "h = head_of b'"
      using a still [OF _ that] that entry_stays(1) by auto
    then show ?thesis
      using Force_Swap a mono by simp
  next
    case (Write_Store bytes n t ph sts)
    then show ?thesis
      using a claims_stays [OF ev kt] unfolding Write_Store asserts.simps owns_tail.simps by blast
  next
    case (Write_Commit bytes n t ph)
    then show ?thesis
      using a claims_stays [OF ev kt] unfolding Write_Commit asserts.simps owns_tail.simps by blast
  next
    case (Take_Copy cp h ps es acc)
    then show ?thesis
      using a head_stays entry_stays cap by fastforce
  next
    case (Take_Commit task h ps es acc)
    then show ?thesis
      using a head_stays entry_stays cap by (cases task; fastforce)
  qed (use a mono cap len head_stays entry_stays in \<open>auto\<close>)
qed

section \<open>The changes of the shared buffer\<close>

lemma evolves_refl [simp]: "evolves b b" "keeps_head b b" "keeps_tail b b"
  by (simp_all add: evolves_def same_shape_def keeps_head_def keeps_tail_def)

lemma relock_entries:
  "UNLOCK x = head_of b \<Longrightarrow> entries (set_head x b) = entries b"
  "UNLOCK x = tail_of b \<Longrightarrow> entries (set_tail x b) = entries b"
  by (simp_all add: entries_def)

text \<open>Locking or unlocking a cursor.\<close>

lemma relock_head:
  assumes "buffer_ok b tot" and "UNLOCK x = head_of b"
  shows "buffer_ok (set_head x b) tot" and "evolves b (set_head x b)" and "keeps_tail b (set_head x b)"
    and "messages (set_head x b) = messages b"
  using assms relock_entries(1) [OF assms(2)]
  by (auto simp: buffer_ok_def ring_def evolves_def same_shape_def keeps_tail_def messages_def)

lemma relock_tail:
  assumes "buffer_ok b tot" and "UNLOCK x = tail_of b"
  shows "buffer_ok (set_tail x b) tot" and "evolves b (set_tail x b)" and "keeps_head b (set_tail x b)"
    and "messages (set_tail x b) = messages b"
  using assms relock_entries(2) [OF assms(2)]
  by (auto simp: buffer_ok_def ring_def evolves_def same_shape_def keeps_head_def messages_def)

text \<open>Taking the first entry out.\<close>

lemma drop_first:
  assumes ok: "buffer_ok b tot" and e: "first_entry b e"
  defines "b' \<equiv> set_head (head_of b + entry_size e) b"
  shows "buffer_ok b' tot" and "evolves b b'" and "keeps_tail b b'" and "head_of b' = head_of b + entry_size e"
    and "messages b = (if is_placeholder e then [] else [payload_bytes (data b) (capacity b) e]) @ messages b'"
proof -
  obtain es where es: "entries b = e # es"
    using e by (cases "entries b") (auto simp: first_entry_def)
  have r: "ring b (e # es)" and num: "unat (tail_of b) = tot" "unat (head_of b) + span (e # es) = tot"
    and room: "tot \<noteq> 0 \<longrightarrow> 24 \<le> capacity b"
    using ok es by (simp_all add: buffer_ok_def)
  note adv = ring_advance [OF r, folded b'_def]
  have es': "entries b' = es"
    using adv(1) by (rule ring_entries)
  have size: "24 \<le> esize e"
    using r by (simp add: ring_def entry_ok_def)
  have "unat (head_of b) + esize e < two64"
    using num unat_lt_two64 [of "tail_of b"] by simp
  then have u: "unat (head_of b + entry_size e) = unat (head_of b) + esize e"
    by (simp add: unat_add_two64)
  show h: "head_of b' = head_of b + entry_size e"
    using adv(3) by (simp add: b'_def)
  show "buffer_ok b' tot"
    using adv(1) es' num h u room by (simp add: buffer_ok_def) (simp add: b'_def)
  have "head_of b' \<noteq> head_of b"
    using u size by (simp add: h word_unat_eq_iff)
  then show "evolves b b'"
    using h u by (simp add: evolves_def same_shape_def) (simp add: b'_def)
  show "keeps_tail b b'"
    using es es' by (simp add: keeps_tail_def) (simp add: b'_def)
  show "messages b = (if is_placeholder e then [] else [payload_bytes (data b) (capacity b) e]) @ messages b'"
    by (rule adv(2))
qed

lemma same_ring_payload:
  assumes "same_ring d d' B (unat off) (span es)" and "B = 2 ^ k" and "k \<le> 64"
    and "B \<le> length d" and "chain d B off es" and "f \<in> set es"
  shows "payload_bytes d' B f = payload_bytes d B f"
proof -
  obtain xs ys where es: "es = xs @ f # ys"
    using assms(6) by (auto simp: in_set_conv_decomp)
  have "same_ring d d' B (unat off) (span (xs @ [f]))"
    using assms(1) by (simp add: es same_ring_def)
  moreover have "chain d B off (xs @ [f])"
    using assms(5) by (simp add: es chain_append)
  ultimately have "payloads d' B (xs @ [f]) = payloads d B (xs @ [f])"
    using chain_same_ring [OF _ assms(2,3,4)] by blast
  moreover have "payloads d' B xs = payloads d B xs"
    using chain_same_ring [OF _ assms(2,3,4), of d' off xs] assms(1,5) by (simp add: es same_ring_def chain_append)
  ultimately show ?thesis
    by (cases "is_placeholder f") (simp_all add: payload_bytes_def is_placeholder_def)
qed

text \<open>A store of the writer that holds \<open>tail\<close>.\<close>

lemma run_stores_length: "run_stores sts d = Some d' \<Longrightarrow> length d' = length d"
  by (induction sts d rule: run_stores.induct) (auto simp: bind_eq_Some_conv dest: length_write_bytes)

lemma claimed_store:
  assumes ok: "buffer_ok b tot" and hold: "holds_tail t b"
    and cl: "claims bytes n t ph ((p, bs) # rest) b e d'"
  obtains d1 where "write_bytes (data b) p bs = Some d1" and "buffer_ok (b\<lparr>data := d1\<rparr>) tot"
    and "evolves b (b\<lparr>data := d1\<rparr>)" and "messages (b\<lparr>data := d1\<rparr>) = messages b"
    and "claims bytes n t ph rest (b\<lparr>data := d1\<rparr>) e d'"
proof -
  let ?es = "entries b" and ?B = "capacity b" and ?pos = "ring_pos (capacity b) t"
  have r: "ring b ?es"
    using ok by (simp add: buffer_ok_def)
  obtain k where k: "?B = 2 ^ k" "k < 64"
    using r by (rule ring_capacity)
  obtain d1 where d1: "write_bytes (data b) p bs = Some d1" "run_stores rest d1 = Some d'"
    using cl by (auto simp: claims_def bind_eq_Some_conv)
  let ?b = "b\<lparr>data := d1\<rparr>"
  have len: "length d1 = length (data b)"
    using d1(1) by (rule length_write_bytes)
  have inside: "?pos \<le> p" "p + length bs \<le> ?pos + esize e" and fits: "span ?es + esize e \<le> ?B"
    and eok: "entry_ok ?B t e"
    using cl by (auto simp: claims_def)
  have t: "t = tail_of b"
    using hold by (simp add: holds_tail_def)
  then have pos: "?pos = (unat (head_of b) + span ?es) mod ?B"
    using ring_pos_add [OF k(1)] k(2) r by (simp add: ring_def)
  have same: "same_ring (data b) d1 ?B (unat (head_of b)) (span ?es)"
  proof (rule same_ring_update [where k = k and p = ?pos and m = "esize e"])
    show "d1 ! i = data b ! i" if "i < length (data b)" "i < ?pos \<or> ?pos + esize e \<le> i" for i
      using write_bytes_nth [OF d1(1), of i] that inside by auto
    show "?pos + esize e \<le> ?B"
      using entry_ok_inside [OF eok] by simp
  qed (use k r len pos fits in \<open>simp_all add: ring_def\<close>)
  have chain: "chain (data b) ?B (head_of b) ?es" and B: "?B \<le> length (data b)"
    using r by (simp_all add: ring_def)
  note keep = chain_same_ring [OF same k(1) _ B chain]
  have r': "ring ?b ?es"
    using r keep k(2) len by (auto simp: ring_def)
  then have es': "entries ?b = ?es"
    by (rule ring_entries)
  have pay: "payload_bytes d1 ?B f = payload_bytes (data b) ?B f" if "f \<in> set ?es" for f
    using same_ring_payload [OF same k(1) _ B chain that] k(2) by simp
  show ?thesis
  proof (rule that [OF d1(1)])
    show "buffer_ok ?b tot"
      using ok r' es' by (simp add: buffer_ok_def)
    show "evolves b ?b"
      using es' pay len by (simp add: evolves_def same_shape_def)
    show "messages ?b = messages b"
      using es' keep k(2) by (simp add: messages_def)
    show "claims bytes n t ph rest ?b e d'"
      using cl d1(2) es' by (auto simp: claims_def)
  qed
qed

text \<open>Publishing the entry.\<close>

lemma append_entry:
  assumes ok: "buffer_ok b tot" and hold: "holds_tail t b" and cl: "claims bytes n t ph [] b e d'"
    and small: "tot + unat (tail_of (set_tail (t + entry_size e) b) - tail_of b) < two64"
  defines "b' \<equiv> set_tail (t + entry_size e) b"
  shows "buffer_ok b' (tot + esize e)" and "evolves b b'" and "keeps_head b b'"
    and "messages b' = messages b @ (if ph then [] else [take (unat n) bytes])"
    and "unat (tail_of b' - tail_of b) = esize e"
proof -
  let ?es = "entries b"
  have r: "ring b ?es" and num: "unat (tail_of b) = tot" "unat (head_of b) + span ?es = tot"
    using ok by (simp_all add: buffer_ok_def)
  obtain k where k: "capacity b = 2 ^ k" "k < 64"
    using r by (rule ring_capacity)
  have t: "t = tail_of b"
    using hold by (simp add: holds_tail_def)
  have c: "entry_at (data b) (ring_pos (capacity b) (tail_of b)) = Some e"
      "entry_ok (capacity b) (tail_of b) e" "is_placeholder e = ph" "span ?es + esize e \<le> capacity b"
      "\<not> ph \<longrightarrow> payload_bytes (data b) (capacity b) e = take (unat n) bytes"
    using cl t by (auto simp: claims_def)
  have same: "same_ring (data b) (data b) (capacity b) (unat (head_of b)) (span ?es)"
    by (simp add: same_ring_def)
  have b': "b' = set_tail (tail_of b + entry_size e) (b\<lparr>data := data b\<rparr>)"
    by (simp add: b'_def t)
  note ext = ring_extend [OF r same c(1,2,4), folded b']
  have es': "entries b' = ?es @ [e]"
    using ext(1) by (rule ring_entries)
  have t': "tail_of b' = tail_of b + entry_size e"
    using ext(3) by (simp add: b'_def t)
  then have "tot + esize e < two64"
    using small by (simp flip: b'_def)
  then have u: "unat (tail_of b + entry_size e) = tot + esize e"
    using num(1) by (simp add: unat_add_two64)
  have "24 \<le> capacity b"
    using c(2) entry_ok_inside [OF c(2)] by (simp add: entry_ok_def)
  then show "buffer_ok b' (tot + esize e)"
    using ext(1) es' num t' u by (simp add: buffer_ok_def) (simp add: b'_def)
  show "evolves b b'"
    using es' t' u num by (simp add: evolves_def same_shape_def) (simp add: b'_def)
  show "keeps_head b b'"
    by (simp add: keeps_head_def b'_def)
  show "messages b' = messages b @ (if ph then [] else [take (unat n) bytes])"
    using ext(2) c by auto
  show "unat (tail_of b' - tail_of b) = esize e"
    by (simp add: t')
qed

section \<open>The stores of a writer, one after the other\<close>

lemma run_stores_fun [simp]:
  "run_stores [] = Some"
  "run_stores ((p, bs) # rest) = (\<lambda>d. Option.bind (write_bytes d p bs) (run_stores rest))"
  by (simp_all add: fun_eq_iff)

lemma run_stores_append: "run_stores (xs @ ys) d = Option.bind (run_stores xs d) (run_stores ys)"
  by (induction xs d rule: run_stores.induct) (simp_all split: bind_split)

lemma write_bytes_snoc:
  assumes "write_bytes d q bs = Some d'" and "q + length bs < length d"
  shows "write_bytes d' (q + length bs) [x] = write_bytes d q (bs @ [x])"
  using assms by (auto simp: write_bytes_def min_def drop_Suc tl_drop [symmetric] drop_tl)

text \<open>The copy byte by byte is the copy of the code.\<close>

lemma run_byte_stores:
  "q + m \<le> length d \<Longrightarrow> m \<le> length bytes \<Longrightarrow>
   run_stores (map (\<lambda>i. (q + i, [bytes ! i])) [0..<m]) d = write_bytes d q (take m bytes)"
proof (induction m)
  case 0
  then show ?case by (simp add: write_bytes_def)
next
  case (Suc m)
  obtain d' where d': "write_bytes d q (take m bytes) = Some d'"
    using Suc.prems by (auto simp: write_bytes_def)
  have "write_bytes d' (q + m) [bytes ! m] = write_bytes d q (take m bytes @ [bytes ! m])"
    using write_bytes_snoc [OF d', of "bytes ! m"] Suc.prems by simp
  then show ?case
    using Suc d' by (simp add: run_stores_append take_Suc_conv_app_nth)
qed

lemma run_entry_stores:
  assumes "unat p + 24 + unat n \<le> length d" and "unat n \<le> length bytes"
  shows "run_stores (entry_stores ph t (unat p) s full bytes n) d = store_entry ph t p s full bytes n d"
proof (cases ph)
  case True
  then show ?thesis
    by (simp add: entry_stores_def store_entry_def store_u64_def Let_def)
next
  case False
  have "memcpy d (unat p + 24) bytes (unat n) = run_stores (map (\<lambda>i. (unat p + 24 + i, [bytes ! i])) [0..<unat n]) d"
    using run_byte_stores [of "unat p + 24" "unat n" d bytes] assms by (simp add: memcpy_def read_bytes_def)
  then show ?thesis
    using False
    by (simp add: entry_stores_def store_entry_def store_u64_def run_stores_append sizeof_EntryHeader_def
        Let_def)
qed

lemma run_placeholder_stores:
  "run_stores (entry_stores True t (unat p) s full bytes n) d = store_entry True t p s full bytes n d"
  by (simp add: entry_stores_def store_entry_def store_u64_def Let_def)

text \<open>The stores lie in the entry they write.\<close>

lemma entry_stores_inside:
  assumes "(q, bs) \<in> set (entry_stores ph t p s full bytes n)"
  shows "p \<le> q \<and> q + length bs \<le> p + 24 + (if ph then 0 else unat n)"
  using assms by (auto simp: entry_stores_def split: if_split_asm)

section \<open>Positions\<close>

lemma relative_pos:
  assumes "ring b es"
  shows "unat (RELATIVE x (data_size (header b))) = ring_pos (capacity b) x"
proof -
  obtain k where "capacity b = 2 ^ k"
    using assms by (rule ring_capacity)
  then show ?thesis
    using unat_RELATIVE [of "data_size (header b)" k x] by (simp add: ring_pos_def capacity_def)
qed

lemma held_entry:
  assumes ok: "buffer_ok b tot" and h: "head_of b = h" and e: "first_entry b e"
  shows "load_u64 (data b) (ring_pos (capacity b) h) = Some h"
    and "load_u64 (data b) (ring_pos (capacity b) h + 8) = Some (payload_size e)"
    and "load_u64 (data b) (ring_pos (capacity b) h + 16) = Some (entry_size e)"
    and "payload_size e \<noteq> 0 \<Longrightarrow> read_bytes (data b) (ring_pos (capacity b) h + 24) (psize e) =
      Some (payload_bytes (data b) (capacity b) e)"
proof -
  obtain es where es: "entries b = e # es"
    using e by (cases "entries b") (auto simp: first_entry_def)
  have r: "ring b (e # es)"
    using ok es by (simp add: buffer_ok_def)
  have at: "entry_at (data b) (ring_pos (capacity b) h) = Some e" and sq: "seq e = h"
    using r h by (simp_all add: ring_def entry_ok_def)
  show "load_u64 (data b) (ring_pos (capacity b) h) = Some h"
    and "load_u64 (data b) (ring_pos (capacity b) h + 8) = Some (payload_size e)"
    and "load_u64 (data b) (ring_pos (capacity b) h + 16) = Some (entry_size e)"
    using entry_at_loads [OF at] sq by simp_all
  show "read_bytes (data b) (ring_pos (capacity b) h + 24) (psize e) =
      Some (payload_bytes (data b) (capacity b) e)" if "payload_size e \<noteq> 0"
    using ring_head_payload(1) [OF r] that h by (simp add: is_placeholder_def)
qed

lemma nonempty_first:
  assumes "buffer_ok b tot" and "head_of b \<noteq> tail_of b"
  obtains e where "first_entry b e"
proof -
  have "entries b \<noteq> []"
    using assms buffer_okD(2,3) [OF assms(1)] by (auto simp: word_unat_eq_iff)
  then show ?thesis
    using that by (simp add: first_entry_def)
qed

text \<open>The header of an entry lies inside the data area wherever \<open>head\<close> points.\<close>

lemma head_room:
  assumes ok: "buffer_ok b tot"
  shows "ring_pos (capacity b) (head_of b) = 0 \<or> ring_pos (capacity b) (head_of b) + 24 \<le> capacity b"
proof (cases "entries b")
  case Nil
  then have "head_of b = tail_of b"
    using buffer_okD(2,3) [OF ok] by (simp add: word_unat_eq_iff)
  then show ?thesis
    using buffer_okD(6) [OF ok] by simp
next
  case (Cons e es)
  then have "entry_ok (capacity b) (head_of b) e"
    using buffer_okD(1) [OF ok] by (simp add: ring_def)
  from entry_ok_inside [OF this] this show ?thesis
    by (simp add: entry_ok_def)
qed

lemma holds_headD:
  assumes "holds_head h b"
  shows "head_of b = h" and "UNLOCK h = h" and "unlock_head h b = (True, set_head h b)"
    and "advance_head h n b = (True, set_head (h + n) b)"
  using assms by (simp_all add: holds_head_def unlock_head_def unlock_ref_def advance_head_def compare_exchange_def)

lemma read_one_byte:
  assumes "read_bytes d p n = Some bs" and "i < n"
  shows "read_bytes d (p + i) 1 = Some [bs ! i]"
  using assms by (auto simp: read_bytes_def take_Suc_conv_app_nth split: if_split_asm)

end
