(* ===== verification/Interleaving_Steps.thy ===== *)
theory Interleaving_Steps
  imports Interleaving_Inv
begin

text \<open>
  Every step of a thread keeps the buffer well-formed, establishes the assertion of the thread's
  next position and keeps the assertions of all other threads.
\<close>

section \<open>Every step is a good one\<close>

definition good_step :: "pc \<Rightarrow> IpcBuffer \<Rightarrow> nat \<Rightarrow> pc \<times> IpcBuffer \<times> event \<Rightarrow> bool" where
  "good_step p b tot res \<longleftrightarrow> (case res of (p', b', ev) \<Rightarrow>
     buffer_ok b' (tot + unat (tail_of b' - tail_of b)) \<and> evolves b b' \<and>
     (owns_head p \<or> keeps_head b b') \<and> (owns_tail p \<or> keeps_tail b b') \<and> asserts p' b' \<and>
     (owns_head p' \<longrightarrow> owns_head p \<or> \<not> is_locked (head (header b))) \<and>
     (owns_tail p' \<longrightarrow> owns_tail p \<or> \<not> is_locked (tail (header b))) \<and>
     messages b @ (case ev of Accepted m \<Rightarrow> [m] | _ \<Rightarrow> []) =
       (case ev of Taken m \<Rightarrow> [m] | Dropped \<Rightarrow> dropped b b' | _ \<Rightarrow> []) @ messages b')"

lemma dropped_prefix: "messages b = xs @ messages b' \<Longrightarrow> dropped b b' = xs"
  by (simp add: dropped_def)

lemma local_step:
  assumes "buffer_ok b tot" and "asserts p' b" and "owns_head p' \<Longrightarrow> owns_head p" and "owns_tail p' \<Longrightarrow> owns_tail p"
  shows "good_step p b tot (p', b, Silent)"
  using assms by (auto simp: good_step_def)

text \<open>The writer up to its claim.\<close>

lemma write_head_step:
  assumes ok: "buffer_ok b tot" and a: "asserts (Write_Head bytes n t) b"
  shows "good_step (Write_Head bytes n t) b tot (write_step (Write_Head bytes n t) b)"
proof (cases "data_size (header b) - (t - UNLOCK (read_head b)) < full_entry_size n")
  case True
  then show ?thesis
    by (auto intro!: local_step [OF ok])
next
  case False
  let ?h = "head_of b"
  have num: "unat ?h + span (entries b) = unat (tail_of b)" and le: "span (entries b) \<le> capacity b"
    using buffer_okD [OF ok] by simp_all
  have "unat t - unat ?h + unat (full_entry_size n) \<le> capacity b" if "unat ?h \<le> unat t"
  proof -
    have u: "unat (t - ?h) = unat t - unat ?h"
      using that by (rule unat_diff_le)
    have "unat t - unat ?h \<le> capacity b"
      using a num le by auto
    then have "unat (data_size (header b) - (t - ?h)) = capacity b - (unat t - unat ?h)"
      using u by (subst unat_diff_le) (simp_all add: capacity_def)
    then show ?thesis
      using False \<open>unat t - unat ?h \<le> capacity b\<close> a
      by (simp add: read_head_def word_less_nat_alt)
  qed
  then have "asserts (Write_Lock bytes n t ?h) b"
    using a by simp
  from local_step [OF ok this] show ?thesis
    using False by (simp add: read_head_def Let_def)
qed

lemma write_lock_step:
  assumes ok: "buffer_ok b tot" and a: "asserts (Write_Lock bytes n t h) b"
  shows "good_step (Write_Lock bytes n t h) b tot (write_step (Write_Lock bytes n t h) b)"
proof (cases "tail (header b) = t")
  case False
  then have "lock_tail t b = (False, b)"
    using a by (simp add: lock_tail_def lock_ref_def compare_exchange_def)
  then show ?thesis
    using local_step [OF ok, of "Write_Tail bytes n"] a by (simp add: Let_def)
next
  case True
  let ?es = "entries b" and ?B = "capacity b" and ?full = "full_entry_size n"
  let ?pos = "ring_pos (capacity b) t"
  have t: "\<not> is_locked (tail (header b))" and tt: "t = tail_of b"
    using a True by auto
  have r: "ring b ?es"
    using ok by (simp add: buffer_ok_def)
  have msg: "valid_message bytes n" and n: "unat n + 31 < two64" and bytes: "unat n \<le> length bytes"
    using a by (simp_all add: valid_message_def)
  note full = full_entry_size_bounds [OF n]
  have le: "unat h \<le> unat (head_of b)" and hd: "unat (head_of b) + span ?es = unat t"
    using a ok tt by (simp_all add: buffer_ok_def)
  then have "unat t - unat h + unat ?full \<le> ?B"
    using a by auto
  then have free: "span ?es + unat ?full \<le> ?B"
    using le hd by linarith
  have B: "?B \<le> length (data b)"
    using r by (simp add: ring_def)
  define ph where "ph \<longleftrightarrow> space_to_wrap b < unat ?full + 24"
  have space_u: "unat (data_size (header b) - RELATIVE t (data_size (header b))) = space_to_wrap b"
    and rel: "unat (RELATIVE t (data_size (header b))) = ?pos"
    using writer_arith(1,2) [OF r t] True t by simp_all
  obtain k where k: "?B = 2 ^ k" "k < 64"
    using r by (rule ring_capacity)
  have "unat ?full + 24 < two64"
    using free pow2_le_2p63 [OF k(2)] k(1) by simp
  then have "unat (?full + sizeof_EntryHeader) = unat ?full + 24"
    by (simp add: sizeof_EntryHeader_def unat_add_two64)
  then have ph': "(data_size (header b) - RELATIVE t (data_size (header b)) < ?full + sizeof_EntryHeader) = ph"
    by (simp only: word_less_nat_alt space_u ph_def)
  let ?sts = "entry_stores ph t ?pos (data_size (header b) - RELATIVE t (data_size (header b))) ?full bytes n"
  have stp: "write_step (Write_Lock bytes n t h) b =
      (Write_Store bytes n t ph ?sts, set_tail (LOCK t) b, Silent)"
    using lock_tail_unlocked [OF t] by (simp only: True write_step.simps Let_def ph' rel prod.case if_True)
  have posB: "?pos < ?B"
    using k(1) by (simp add: ring_pos_def)
  have room: "?pos = 0 \<or> ?pos + 24 \<le> ?B"
    using buffer_okD(6) [OF ok] tt by simp
  have sw: "space_to_wrap b = ?B - ?pos"
    by (simp add: space_to_wrap_def tt)
  have "\<exists>e d'. claims bytes n t ph ?sts b e d'"
  proof (cases ph)
    case True
    have pos24: "?pos + 24 \<le> ?B"
      using room free full(2) by auto
    then obtain d' where d': "run_stores ?sts (data b) = Some d'"
      and e: "entry_at d' ?pos = Some \<lparr>seq = t, payload_size = 0,
        entry_size = data_size (header b) - RELATIVE t (data_size (header b))\<rparr>"
      using store_placeholder [of "RELATIVE t (data_size (header b))" "data b" t
          "data_size (header b) - RELATIVE t (data_size (header b))" ?full bytes n] B
      by (simp add: True rel flip: run_placeholder_stores) metis
    have "8 dvd space_to_wrap b"
    proof -
      have "8 dvd unat t"
        using ring_tail_aligned [OF r] tt by simp
      moreover have "8 dvd ?B"
      proof -
        have "3 \<le> k"
        proof (rule ccontr)
          assume "\<not> 3 \<le> k"
          then have "(2::nat) ^ k \<le> 2 ^ 2"
            by (intro power_increasing) simp_all
          then show False
            using pos24 k(1) by simp
        qed
        then have "(2::nat) ^ 3 dvd 2 ^ k"
          by (rule le_imp_power_dvd)
        then show ?thesis
          by (simp add: k(1))
      qed
      ultimately show ?thesis
        by (simp add: sw ring_pos_def dvd_mod dvd_diff_nat)
    qed
    moreover have "span ?es + space_to_wrap b \<le> ?B"
      using placeholder_fits [OF r, of "unat ?full"] free full(2) True by (simp add: ph_def)
    ultimately have "claims bytes n t ph ?sts b \<lparr>seq = t, payload_size = 0,
        entry_size = data_size (header b) - RELATIVE t (data_size (header b))\<rparr> d'"
      unfolding claims_def
      using d' e pos24 posB space_u sw True entry_stores_inside [of _ _ True t ?pos]
      by (auto simp: entry_ok_def is_placeholder_def) fastforce
    then show ?thesis
      by blast
  next
    case False
    then have wrap: "?pos + unat ?full + 24 \<le> ?B"
      using sw by (simp add: ph_def)
    obtain d' where d': "run_stores ?sts (data b) = Some d'"
      and e: "entry_at d' ?pos = Some \<lparr>seq = t, payload_size = n, entry_size = ?full\<rparr>"
      and pl: "read_bytes d' (?pos + 24) (unat n) = Some (take (unat n) bytes)"
      using store_message [of "RELATIVE t (data_size (header b))" n "data b" bytes t
          "data_size (header b) - RELATIVE t (data_size (header b))" ?full]
        run_entry_stores [of "RELATIVE t (data_size (header b))" n "data b" bytes False t
          "data_size (header b) - RELATIVE t (data_size (header b))" ?full]
        wrap full(2) B bytes by (simp add: False rel) metis
    have "n \<noteq> 0"
      using msg by (simp add: valid_message_def)
    moreover have "payload_bytes d' ?B \<lparr>seq = t, payload_size = n, entry_size = ?full\<rparr> = take (unat n) bytes"
      using pl by (simp add: payload_bytes_def read_bytes_def split: if_split_asm)
    ultimately have "claims bytes n t ph ?sts b \<lparr>seq = t, payload_size = n, entry_size = ?full\<rparr> d'"
      unfolding claims_def
      using d' e wrap free full False entry_stores_inside [of _ _ False t ?pos]
      by (auto simp: entry_ok_def is_placeholder_def) fastforce
    then show ?thesis
      by blast
  qed
  moreover have "UNLOCK (LOCK t) = tail_of b"
    using tt by simp
  note rl = relock_tail [OF ok this] relock_entries(2) [OF this]
  ultimately have "asserts (Write_Store bytes n t ph ?sts) (set_tail (LOCK t) b)"
    using t a msg by (simp add: holds_tail_def claims_set_tail [OF rl(5)] True)
  then show ?thesis
    unfolding stp good_step_def using rl t tt by (auto simp: keeps_tail_def)
qed

text \<open>The writer while it holds \<open>tail\<close>.\<close>

lemma write_store_step:
  assumes ok: "buffer_ok b tot" and a: "asserts (Write_Store bytes n t ph sts) b"
  shows "good_step (Write_Store bytes n t ph sts) b tot (write_step (Write_Store bytes n t ph sts) b)"
proof -
  obtain e d' where hold: "holds_tail t b" and msg: "valid_message bytes n" and cl: "claims bytes n t ph sts b e d'"
    using a by auto
  show ?thesis
  proof (cases sts)
    case Nil
    then have "asserts (Write_Commit bytes n t ph) b"
      using hold msg cl by auto
    from local_step [OF ok this] show ?thesis
      using Nil by simp
  next
    case (Cons st rest)
    obtain p bs where st: "st = (p, bs)"
      by (cases st)
    from claimed_store [OF ok hold cl [unfolded Cons st]] obtain d1
      where d1: "write_bytes (data b) p bs = Some d1" and ok1: "buffer_ok (b\<lparr>data := d1\<rparr>) tot"
        and ev: "evolves b (b\<lparr>data := d1\<rparr>)" and ms: "messages (b\<lparr>data := d1\<rparr>) = messages b"
        and cl1: "claims bytes n t ph rest (b\<lparr>data := d1\<rparr>) e d'" .
    have "asserts (Write_Store bytes n t ph rest) (b\<lparr>data := d1\<rparr>)"
      using hold msg cl1 by (auto simp: holds_tail_def)
    then show ?thesis
      using ok1 ev ms by (simp add: Cons st d1 good_step_def keeps_head_def)
  qed
qed

lemma claimed_size:
  assumes "buffer_ok b tot" and "claims bytes n t ph [] b e d'"
  shows "load_u64 (data b) (unat (RELATIVE t (data_size (header b))) + 16) = Some (entry_size e)"
proof -
  have "ring b (entries b)"
    using assms(1) by (rule buffer_okD)
  then show ?thesis
    using assms(2) entry_at_loads(3) [of "data b" "ring_pos (capacity b) t" e]
    by (simp add: relative_pos claims_def)
qed

lemma write_commit_step:
  assumes ok: "buffer_ok b tot" and a: "asserts (Write_Commit bytes n t ph) b"
    and small: "tot + unat (tail_of (fst (snd (write_step (Write_Commit bytes n t ph) b))) - tail_of b) < two64"
  shows "good_step (Write_Commit bytes n t ph) b tot (write_step (Write_Commit bytes n t ph) b)"
proof -
  obtain e d' where hold: "holds_tail t b" and msg: "valid_message bytes n" and cl: "claims bytes n t ph [] b e d'"
    using a by auto
  let ?b = "set_tail (t + entry_size e) b"
  have adv: "advance_tail t (entry_size e) b = (True, ?b)"
    using hold by (simp add: advance_tail_def holds_tail_def compare_exchange_def)
  have stp: "write_step (Write_Commit bytes n t ph) b =
      (if ph then (Write_Start bytes n, ?b, Silent) else (Idle (Some IPC_OK), ?b, Accepted (take (unat n) bytes)))"
    by (simp add: claimed_size [OF ok cl] adv Let_def)
  have "tot + unat (tail_of ?b - tail_of b) < two64"
    using small unfolding stp by (cases ph) simp_all
  note app = append_entry [OF ok hold cl this]
  show ?thesis
    unfolding stp good_step_def using app msg by auto
qed

text \<open>The reader, peek and skip.\<close>

lemma take_head_step:
  assumes ok: "buffer_ok b tot"
  shows "good_step (Take_Head task) b tot (take_step (Take_Head task) b)"
  by (cases task) (auto simp: Let_def intro!: local_step [OF ok])

lemma take_lock_step:
  assumes ok: "buffer_ok b tot" and a: "asserts (Take_Lock task h) b"
  shows "good_step (Take_Lock task h) b tot (take_step (Take_Lock task h) b)"
proof (cases "head (header b) = h")
  case False
  then have "lock_head h b = (False, b)"
    using a by (simp add: lock_head_def lock_ref_def compare_exchange_def)
  then show ?thesis
    using local_step [OF ok, of "Take_Head task"] by simp
next
  case True
  have free: "\<not> is_locked (head (header b))"
    using a True by simp
  then have "UNLOCK (LOCK h) = head_of b"
    using True by simp
  note rl = relock_head [OF ok this]
  show ?thesis
    using rl free lock_head_unlocked [OF free]
    by (simp add: True good_step_def holds_head_def keeps_head_def)
qed

lemma take_tail_step:
  assumes ok: "buffer_ok b tot" and a: "asserts (Take_Tail task h) b"
  shows "good_step (Take_Tail task h) b tot (take_step (Take_Tail task h) b)"
proof -
  have hold: "holds_head h b"
    using a by simp
  note h = holds_headD [OF hold]
  show ?thesis
  proof (cases "h = tail_of b \<or> is_locked (tail (header b))")
    case True
    then show ?thesis
      using hold h by (auto simp: Let_def intro!: local_step [OF ok])
  next
    case False
    then obtain e where "first_entry b e"
      using nonempty_first [OF ok] h by metis
    then show ?thesis
      using False hold h by (auto simp: Let_def intro!: local_step [OF ok])
  qed
qed

text \<open>The consumer that has locked an entry.\<close>

lemma take_seq_step:
  assumes ok: "buffer_ok b tot" and a: "asserts (Take_Seq task h) b"
  shows "good_step (Take_Seq task h) b tot (take_step (Take_Seq task h) b)"
proof -
  obtain e where hold: "holds_head h b" and e: "first_entry b e"
    using a by auto
  note h = holds_headD [OF hold]
  have "load_u64 (data b) (unat (RELATIVE (UNLOCK h) (data_size (header b)))) = Some h"
    using held_entry(1) [OF ok h(1) e] by (simp add: h(2) relative_pos [OF buffer_okD(1) [OF ok]])
  then show ?thesis
    using hold e by (auto intro!: local_step [OF ok])
qed

lemma take_payload_step:
  assumes ok: "buffer_ok b tot" and a: "asserts (Take_Payload task h) b"
  shows "good_step (Take_Payload task h) b tot (take_step (Take_Payload task h) b)"
proof -
  obtain e where hold: "holds_head h b" and e: "first_entry b e"
    using a by auto
  note h = holds_headD [OF hold]
  have "load_u64 (data b) (unat (RELATIVE (UNLOCK h) (data_size (header b))) + 8) = Some (payload_size e)"
    using held_entry(2) [OF ok h(1) e] by (simp add: h(2) relative_pos [OF buffer_okD(1) [OF ok]])
  then show ?thesis
    using hold e by (auto intro!: local_step [OF ok])
qed

lemma take_size_step:
  assumes ok: "buffer_ok b tot" and a: "asserts (Take_Size task h ps) b"
  shows "good_step (Take_Size task h ps) b tot (take_step (Take_Size task h ps) b)"
proof -
  obtain e where hold: "holds_head h b" and e: "first_entry b e" and ps: "payload_size e = ps"
    using a by auto
  note h = holds_headD [OF hold]
  have ld: "load_u64 (data b) (unat (RELATIVE (UNLOCK h) (data_size (header b))) + 16) = Some (entry_size e)"
    using held_entry(3) [OF ok h(1) e] by (simp add: h(2) relative_pos [OF buffer_okD(1) [OF ok]])
  have "asserts (Take_Commit task h ps (entry_size e) []) b" if "ps = 0 \<or> (\<exists>off. task = Skipping off)"
    using that hold e ps by (cases task) auto
  moreover have "asserts (Take_Copy cap h ps (entry_size e) []) b" if "ps \<noteq> 0" for cap
    using that hold e ps by auto
  ultimately show ?thesis
    unfolding take_step.simps ld option.case
    by (auto split: task.split intro!: local_step [OF ok] simp: hold)
qed

lemma take_copy_step:
  assumes ok: "buffer_ok b tot" and a: "asserts (Take_Copy cap h ps es acc) b"
  shows "good_step (Take_Copy cap h ps es acc) b tot (take_step (Take_Copy cap h ps es acc) b)"
proof -
  let ?m = "\<lambda>e. payload_bytes (data b) (capacity b) e"
  obtain e where hold: "holds_head h b" and e: "first_entry b e" and sz: "payload_size e = ps" "entry_size e = es"
    and ps: "ps \<noteq> 0" "length acc \<le> unat ps" and acc: "acc = take (length acc) (?m e)"
    using a by auto
  note h = holds_headD [OF hold]
  have rd: "read_bytes (data b) (ring_pos (capacity b) h + 24) (unat ps) = Some (?m e)"
    using held_entry(4) [OF ok h(1) e] sz ps by simp
  then have len: "length (?m e) = unat ps"
    by (rule length_read_bytes)
  show ?thesis
  proof (cases "length acc < unat ps")
    case True
    have "acc @ [?m e ! length acc] = take (Suc (length acc)) (?m e)"
      using acc True len by (metis take_Suc_conv_app_nth)
    then have "asserts (Take_Copy cap h ps es (acc @ [?m e ! length acc])) b"
      unfolding asserts.simps using hold e sz ps len True by (intro conjI exI [of _ e]) (simp_all add: min_def)
    from local_step [OF ok this] show ?thesis
      using True read_one_byte [OF rd True] by (simp add: relative_pos [OF buffer_okD(1) [OF ok]])
  next
    case False
    then have "acc = ?m e"
      using acc len ps by simp
    then have "asserts (Take_Commit (Reading cap) h ps es acc) b"
      using hold e sz by auto
    from local_step [OF ok this] show ?thesis
      using False by simp
  qed
qed

lemma take_commit_step:
  assumes ok: "buffer_ok b tot" and a: "asserts (Take_Commit task h ps es acc) b"
  shows "good_step (Take_Commit task h ps es acc) b tot (take_step (Take_Commit task h ps es acc) b)"
proof -
  obtain e where hold: "holds_head h b" and e: "first_entry b e" and sz: "payload_size e = ps" "entry_size e = es"
    and acc: "case task of Reading cap \<Rightarrow> ps \<noteq> 0 \<longrightarrow> acc = payload_bytes (data b) (capacity b) e | _ \<Rightarrow> True"
    using a by auto
  note h = holds_headD [OF hold]
  let ?b = "set_head (h + es) b"
  note dr = drop_first [OF ok e, unfolded h(1) sz]
  have ph: "is_placeholder e \<longleftrightarrow> ps = 0"
    using sz by (simp add: is_placeholder_def)
  have drp: "dropped b ?b @ messages ?b = messages b"
    using dr(5) by (simp add: dropped_prefix [OF dr(5)])
  have stp: "take_step (Take_Commit task h ps es acc) b =
      (if ps = 0 then (Take_Head task, ?b, Dropped)
       else (Idle (Some IPC_OK), ?b, case task of Reading cap \<Rightarrow> Taken acc | _ \<Rightarrow> Dropped))"
    by (simp add: h(4) Let_def)
  show ?thesis
    unfolding stp good_step_def
    using dr(1-3) dr(5) drp acc ph by (cases task) auto
qed

lemma take_unlock_step:
  assumes ok: "buffer_ok b tot" and a: "asserts (Take_Unlock task h st) b"
  shows "good_step (Take_Unlock task h st) b tot (take_step (Take_Unlock task h st) b)"
proof -
  have hold: "holds_head h b" and st: "st \<noteq> IPC_ERR_ILLEGAL_STATE"
    using a by simp_all
  note h = holds_headD [OF hold]
  have "UNLOCK h = head_of b"
    using h by simp
  from relock_head [OF ok this] show ?thesis
    using st by (simp add: h(3) good_step_def)
qed

text \<open>Skipping by force.\<close>

lemma force_tail_step:
  assumes ok: "buffer_ok b tot" and a: "asserts (Force_Tail h) b"
  shows "good_step (Force_Tail h) b tot (force_step (Force_Tail h) b)"
proof (cases "h = tail_of b")
  case True
  then show ?thesis
    using a by (auto intro!: local_step [OF ok])
next
  case False
  note okD = buffer_okD [OF ok]
  have h: "\<not> is_locked h" "UNLOCK h = h" "unat h \<le> unat (head_of b)"
    "ring_pos (capacity b) h = 0 \<or> ring_pos (capacity b) h + 24 \<le> capacity b"
    using a by auto
  have "tot \<noteq> 0"
  proof
    assume "tot = 0"
    then have "unat h = 0" "unat (tail_of b) = 0"
      using okD(2,3) h(3) by simp_all
    then show False
      using False by (simp add: word_unat_eq_iff)
  qed
  then have "ring_pos (capacity b) h + 24 \<le> length (data b)"
    using h(4) okD(5,7) by auto
  moreover have "entries b \<noteq> []" if "h = head_of b"
    using nonempty_first [OF ok] that False by (metis first_entry_def)
  ultimately have "asserts (Force_Size h (ring_pos (capacity b) h)) b"
    using h by simp
  from local_step [OF ok this] show ?thesis
    using False h(2) by (simp add: relative_pos [OF okD(1)])
qed

lemma force_size_step:
  assumes ok: "buffer_ok b tot" and a: "asserts (Force_Size h p) b"
  shows "good_step (Force_Size h p) b tot (force_step (Force_Size h p) b)"
proof -
  have "p + 16 + 8 \<le> length (data b)"
    using a by simp
  then obtain es where es: "load_u64 (data b) (p + 16) = Some es"
    by (auto simp: load_u64_def read_bytes_def)
  have "\<exists>e. first_entry b e \<and> entry_size e = es" if "h = head_of b"
  proof -
    have e: "first_entry b (hd (entries b))"
      using a that by (simp add: first_entry_def)
    have "Some (entry_size (hd (entries b))) = Some es"
      using held_entry(3) [OF ok that [symmetric] e] a es by simp
    then show ?thesis
      using e by blast
  qed
  then have "asserts (Force_Swap h es) b"
    using a by simp
  from local_step [OF ok this] show ?thesis
    using es by simp
qed

lemma force_swap_step:
  assumes ok: "buffer_ok b tot" and a: "asserts (Force_Swap h es) b"
  shows "good_step (Force_Swap h es) b tot (force_step (Force_Swap h es) b)"
proof (cases "head (header b) = h")
  case False
  then show ?thesis
    by (auto simp: compare_exchange_def intro!: local_step [OF ok])
next
  case True
  have free: "\<not> is_locked h" and h: "head_of b = h"
    using a True by auto
  then obtain e where e: "first_entry b e" "entry_size e = es"
    using a by auto
  let ?b = "set_head (h + es) b"
  note dr = drop_first [OF ok e(1), unfolded h e(2)]
  have "dropped b ?b @ messages ?b = messages b"
    using dr(5) by (simp add: dropped_prefix [OF dr(5)])
  then show ?thesis
    using dr(1-3) free True by (simp add: compare_exchange_def good_step_def keeps_head_def)
qed

section \<open>Any step\<close>

lemma next_step_good:
  assumes ok: "buffer_ok b tot" and a: "asserts p b"
    and small: "tot + unat (tail_of (fst (snd (next_step p b))) - tail_of b) < two64"
  shows "good_step p b tot (next_step p b)"
proof (cases p)
  case (Write_Commit bytes n t ph)
  then show ?thesis
    using write_commit_step [OF ok] a small by simp
next
  case (Write_Start bytes n)
  have "unat (full_entry_size n) \<le> capacity b" if "\<not> data_size (header b) < full_entry_size n"
    using that by (simp add: capacity_def word_less_nat_alt)
  then show ?thesis
    using Write_Start a by (auto intro!: local_step [OF ok])
next
  case (Write_Tail bytes n)
  then show ?thesis
    using a by (auto simp: Let_def intro!: local_step [OF ok])
next
  case (Force_Head)
  then show ?thesis
    using head_room [OF ok] by (auto simp: read_head_def intro!: local_step [OF ok])
next
  case (Idle st)
  then show ?thesis
    using a by (auto intro!: local_step [OF ok])
next
  case (Write_Head bytes n t)
  then show ?thesis using write_head_step [OF ok] a by simp
next
  case (Write_Lock bytes n t h)
  then show ?thesis using write_lock_step [OF ok] a by simp
next
  case (Write_Store bytes n t ph sts)
  then show ?thesis using write_store_step [OF ok] a by simp
next
  case (Take_Head task)
  then show ?thesis using take_head_step [OF ok] by simp
next
  case (Take_Lock task h)
  then show ?thesis using take_lock_step [OF ok] a by simp
next
  case (Take_Tail task h)
  then show ?thesis using take_tail_step [OF ok] a by simp
next
  case (Take_Seq task h)
  then show ?thesis using take_seq_step [OF ok] a by simp
next
  case (Take_Payload task h)
  then show ?thesis using take_payload_step [OF ok] a by simp
next
  case (Take_Size task h ps)
  then show ?thesis using take_size_step [OF ok] a by simp
next
  case (Take_Copy cap h ps es acc)
  then show ?thesis using take_copy_step [OF ok] a by simp
next
  case (Take_Commit task h ps es acc)
  then show ?thesis using take_commit_step [OF ok] a by simp
next
  case (Take_Unlock task h st)
  then show ?thesis using take_unlock_step [OF ok] a by simp
next
  case (Force_Tail h)
  then show ?thesis using force_tail_step [OF ok] a by simp
next
  case (Force_Size h pos)
  then show ?thesis using force_size_step [OF ok] a by simp
next
  case (Force_Swap h es)
  then show ?thesis using force_swap_step [OF ok] a by simp
next
  case Crashed
  then show ?thesis using a by simp
qed

section \<open>The invariant of a run\<close>

lemma config_invD:
  assumes "config_inv c"
  shows "buffer_ok (shared c) (total c)" and "accepted c = taken c @ messages (shared c)"
    and "asserts (threads c i) (shared c)"
    and "owns_head (threads c i) \<Longrightarrow> owns_head (threads c j) \<Longrightarrow> i = j"
    and "owns_tail (threads c i) \<Longrightarrow> owns_tail (threads c j) \<Longrightarrow> i = j"
  using assms by (auto simp: config_inv_def)

lemma good_stepD:
  assumes "good_step p b tot (p', b', ev)"
  shows "buffer_ok b' (tot + unat (tail_of b' - tail_of b))" and "evolves b b'"
    and "\<not> owns_head p \<Longrightarrow> keeps_head b b'" and "\<not> owns_tail p \<Longrightarrow> keeps_tail b b'" and "asserts p' b'"
    and "owns_head p' \<Longrightarrow> owns_head p \<or> \<not> is_locked (head (header b))"
    and "owns_tail p' \<Longrightarrow> owns_tail p \<or> \<not> is_locked (tail (header b))"
    and "messages b @ (case ev of Accepted m \<Rightarrow> [m] | _ \<Rightarrow> []) =
       (case ev of Taken m \<Rightarrow> [m] | Dropped \<Rightarrow> dropped b b' | _ \<Rightarrow> []) @ messages b'"
  using assms by (auto simp: good_step_def)

lemma step_keeps_inv:
  assumes inv: "config_inv c"
    and small: "total (after_step i (next_step (threads c i) (shared c)) c) < two64"
  shows "config_inv (after_step i (next_step (threads c i) (shared c)) c)"
proof -
  obtain p' b' ev where nx: "next_step (threads c i) (shared c) = (p', b', ev)"
    by (metis prod_cases3)
  note I = config_invD [OF inv]
  have "good_step (threads c i) (shared c) (total c) (p', b', ev)"
    using next_step_good [OF I(1) I(3), of i] small by (simp add: nx after_step_def)
  note G = good_stepD [OF this]
  have others: "asserts (threads c j) b'" if "j \<noteq> i" for j
  proof (rule asserts_stable [OF I(3) G(2)])
    show "keeps_head (shared c) b'" if "owns_head (threads c j)"
      using G(3) I(4) [OF that, of i] \<open>j \<noteq> i\<close> by blast
    show "keeps_tail (shared c) b'" if "owns_tail (threads c j)"
      using G(4) I(5) [OF that, of i] \<open>j \<noteq> i\<close> by blast
  qed
  have heads: "\<not> owns_head (threads c j)" if "owns_head p'" and "j \<noteq> i" for j
    using G(6) [OF that(1)] I(4) [of i j] owner_locks(1) [OF I(3), of j] that(2) by blast
  have tails: "\<not> owns_tail (threads c j)" if "owns_tail p'" and "j \<noteq> i" for j
    using G(7) [OF that(1)] I(5) [of i j] owner_locks(2) [OF I(3), of j] that(2) by blast
  show ?thesis
    unfolding config_inv_def nx after_step_def
    using G(1) G(5) G(8) I others heads tails by auto
qed

end
