(* ===== verification/Interleaving_Spec.thy ===== *)
theory Interleaving_Spec
  imports Interleaving_Steps
begin

text \<open>
  What holds in every configuration the threads can reach together: nothing is lost, duplicated or
  reordered, each cursor is locked by at most one thread, no access leaves the data area and what a
  reader has copied is never torn.
\<close>

section \<open>Reachable configurations\<close>

lemma initial_config_inv:
  assumes n: "is_power_of_2 n = Some True" and d: "unat n \<le> length d"
  shows "config_inv (initial_config n d)"
proof -
  let ?b = "shared (initial_config n d)"
  have b: "header ?b = \<lparr>head = 0, data_size = n, tail = 0\<rparr>" "data ?b = d"
    by (simp_all add: initial_config_def)
  have r: "ring ?b []"
    using n d b by (simp add: ring_def capacity_def span_def ring_pos_def is_locked_iff)
  note es = ring_entries [OF r]
  have "buffer_ok ?b 0"
    using r es b by (simp add: buffer_ok_def span_def is_locked_iff)
  moreover have "messages ?b = []"
    by (simp add: messages_def es payloads_def)
  ultimately show ?thesis
    by (simp add: config_inv_def initial_config_def)
qed

lemma call_asserts: "call_ok p \<Longrightarrow> asserts p b \<and> \<not> owns_head p \<and> \<not> owns_tail p"
  by (cases p) simp_all

lemma call_keeps_inv:
  assumes inv: "config_inv c" and p: "call_ok p"
  shows "config_inv (c\<lparr>threads := (threads c)(i := p)\<rparr>)"
  using config_invD [OF inv] call_asserts [OF p] unfolding config_inv_def by auto

lemma reachable_inv:
  assumes "reachable n d c" and "total c < two64"
  shows "config_inv c"
  using assms
proof (induction rule: reachable.induct)
  case start
  then show ?case by (simp add: initial_config_inv)
next
  case (call c i st p)
  then show ?case using call_keeps_inv [of c p i] by simp
next
  case (step c i)
  have "total c \<le> total (after_step i (next_step (threads c i) (shared c)) c)"
    by (simp add: after_step_def split: prod.split)
  then have "config_inv c"
    using step by simp
  then show ?case
    using step.prems by (rule step_keeps_inv)
qed

text \<open>A schedule names the thread that makes the next step.\<close>

definition run_schedule :: "nat list \<Rightarrow> config \<Rightarrow> config" where
  "run_schedule is c = fold (\<lambda>i c. after_step i (next_step (threads c i) (shared c)) c) is c"

lemma run_schedule_reachable: "reachable n d c \<Longrightarrow> reachable n d (run_schedule is c)"
  unfolding run_schedule_def by (induction "is" arbitrary: c) (simp_all add: reachable.step)

definition two_threads :: config where
  "two_threads = (initial_config 64 (replicate 64 0))\<lparr>threads :=
     (\<lambda>_. Idle None)(0 := Write_Start [7, 9] 2, 1 := Take_Head (Reading 4))\<rparr>"

lemma two_threads_reachable: "reachable 64 (replicate 64 0) (run_schedule is two_threads)"
proof (rule run_schedule_reachable)
  let ?c = "initial_config 64 (replicate 64 0)"
  have "reachable 64 (replicate 64 0) ?c"
    by (rule reachable.start) code_simp+
  then have "reachable 64 (replicate 64 0) (?c\<lparr>threads := (threads ?c)(0 := Write_Start [7, 9] 2)\<rparr>)" (is "reachable _ _ ?c1")
    by (rule reachable.call [where st = None]) (simp_all add: initial_config_def valid_message_def)
  then have "reachable 64 (replicate 64 0) (?c1\<lparr>threads := (threads ?c1)(1 := Take_Head (Reading 4))\<rparr>)"
    by (rule reachable.call [where st = None]) (simp_all add: initial_config_def)
  then show "reachable 64 (replicate 64 0) two_threads"
    by (simp add: two_threads_def initial_config_def)
qed

section \<open>The queue under any interleaving\<close>

text \<open>
  C1. In every configuration that any number of threads reach together, as long as fewer than \<open>2\<^sup>64\<close>
  bytes have been appended, the ring is well-formed and the messages whose write has returned
  \<open>IPC_OK\<close> are, in that order, those that readers and skips have taken out followed by those still in
  the ring: nothing is lost, duplicated, reordered or overwritten.
\<close>

theorem interleaved_queue:
  assumes "reachable n d c" and "total c < two64"
  shows "ring_ok (shared c) \<and> accepted c = taken c @ messages (shared c)"
proof -
  note inv = config_invD [OF reachable_inv [OF assms]]
  show ?thesis
    using buffer_okD(1) [OF inv(1)] inv(2) by (simp add: ring_ok_def)
qed

theorem interleaved_queue_witness:
  "accepted (run_schedule (replicate 12 0 @ replicate 9 1) two_threads) = [[7, 9]] \<and>
   accepted (run_schedule (replicate 12 0 @ replicate 9 1) two_threads) =
     taken (run_schedule (replicate 12 0 @ replicate 9 1) two_threads) @
     messages (shared (run_schedule (replicate 12 0 @ replicate 9 1) two_threads))"
proof -
  let ?c = "run_schedule (replicate 12 0 @ replicate 9 1) two_threads"
  have "total ?c = 32" and acc: "accepted ?c = [[7, 9]]"
    by code_simp+
  then have "total ?c < two64"
    by simp
  from interleaved_queue [OF two_threads_reachable this] acc show ?thesis
    by simp
qed

text \<open>
  C2. Mutual exclusion: at most one thread at a time is between locking \<open>head\<close> and unlocking or
  advancing it, at most one between locking \<open>tail\<close> and advancing it, and while one is, the lock bit
  of that cursor is set.
\<close>

theorem locks_exclude:
  assumes "reachable n d c" and "total c < two64"
  shows "(owns_head (threads c i) \<longrightarrow> is_locked (head (header (shared c))) \<and> (owns_head (threads c j) \<longrightarrow> i = j)) \<and>
    (owns_tail (threads c i) \<longrightarrow> is_locked (tail (header (shared c))) \<and> (owns_tail (threads c j) \<longrightarrow> i = j))"
proof -
  note inv = config_invD [OF reachable_inv [OF assms]]
  show ?thesis
    using owner_locks [OF inv(3)] inv(4,5) by blast
qed

theorem locks_exclude_witness:
  "owns_tail (threads (run_schedule (replicate 5 0 @ replicate 3 1) two_threads) 0) \<and>
   is_locked (tail (header (shared (run_schedule (replicate 5 0 @ replicate 3 1) two_threads))))"
proof -
  let ?c = "run_schedule (replicate 5 0 @ replicate 3 1) two_threads"
  have "total ?c = 0"
    by code_simp
  then have "total ?c < two64"
    by simp
  note excl = locks_exclude [OF two_threads_reachable this, of 0 0]
  moreover have "owns_tail (threads ?c 0)"
    by code_simp
  ultimately show ?thesis
    by blast
qed

text \<open>
  C4. No interleaving makes a thread access memory outside the data area, and no call ends in
  \<open>IPC_ERR_ILLEGAL_STATE\<close>, the status the code keeps for a compare-and-exchange of a lock holder
  that fails.
\<close>

theorem interleaving_never_fails:
  assumes "reachable n d c" and "total c < two64"
  shows "threads c i \<noteq> Crashed \<and> threads c i \<noteq> Idle (Some IPC_ERR_ILLEGAL_STATE)"
  using config_invD(3) [OF reachable_inv [OF assms], of i] by auto

theorem interleaving_never_fails_witness:
  "threads (run_schedule (concat (replicate 20 [0, 1])) two_threads) 1 \<noteq> Crashed"
proof -
  have "total (run_schedule (concat (replicate 20 [0, 1])) two_threads) = 32"
    by code_simp
  then have "total (run_schedule (concat (replicate 20 [0, 1])) two_threads) < two64"
    by simp
  from interleaving_never_fails [OF two_threads_reachable this, of 1] show ?thesis
    by blast
qed

text \<open>
  C3. No torn reads: whatever writers store and other consumers do in the meantime, the bytes a
  reader has copied so far are a prefix of the message at the front of the queue, and its
  destination is large enough for all of it.
\<close>

theorem reads_are_not_torn:
  assumes "reachable n d c" and "total c < two64" and "threads c i = Take_Copy cp h ps es acc"
  shows "\<exists>m ms. messages (shared c) = m # ms \<and> length m = unat ps \<and> acc = take (length acc) m"
proof -
  note inv = config_invD [OF reachable_inv [OF assms(1,2)]]
  note ok = inv(1)
  obtain e where hold: "holds_head h (shared c)" and ps: "ps \<noteq> 0" and e: "first_entry (shared c) e" "payload_size e = ps"
    and acc: "acc = take (length acc) (payload_bytes (data (shared c)) (capacity (shared c)) e)"
    using inv(3) [of i] assms(3) by auto
  have "\<not> is_placeholder e"
    using e ps by (simp add: is_placeholder_def)
  then have "messages (shared c) = payload_bytes (data (shared c)) (capacity (shared c)) e #
      messages (set_head (head_of (shared c) + entry_size e) (shared c))"
    using drop_first(5) [OF ok e(1)] by simp
  moreover have "length (payload_bytes (data (shared c)) (capacity (shared c)) e) = unat ps"
    using held_entry(4) [OF ok holds_headD(1) [OF hold] e(1)] e(2) ps by (simp add: length_read_bytes)
  ultimately show ?thesis
    using acc by blast
qed

theorem reads_are_not_torn_witness:
  "\<exists>m ms. messages (shared (run_schedule (replicate 11 0 @ replicate 7 1) two_threads)) = m # ms \<and> length m = 2 \<and>
     [7] = take (length [7 :: u8]) m"
proof -
  let ?c = "run_schedule (replicate 11 0 @ replicate 7 1) two_threads"
  have "total ?c = 32"
    by code_simp
  then have "total ?c < two64"
    by simp
  moreover have "threads ?c 1 = Take_Copy 4 0 2 32 [7]"
    by code_simp
  ultimately show ?thesis
    using reads_are_not_torn [OF two_threads_reachable, of _ 1 4 0 2 32 "[7]"] by simp
qed

section \<open>Progress\<close>

text \<open>A bound on the steps that the owner of a lock makes until it gives it back.\<close>

fun critical :: "nat \<Rightarrow> pc \<Rightarrow> nat" where
  "critical B (Write_Store bytes n t ph sts) = length sts + 2"
| "critical B (Write_Commit bytes n t ph) = 1"
| "critical B (Take_Tail task h) = B + 7"
| "critical B (Take_Seq task h) = B + 6"
| "critical B (Take_Payload task h) = B + 5"
| "critical B (Take_Size task h ps) = B + 4"
| "critical B (Take_Copy cap h ps es acc) = unat ps - length acc + 2"
| "critical B (Take_Commit task h ps es acc) = 1"
| "critical B (Take_Unlock task h st) = 1"
| "critical B p = 0"

abbreviation owner :: "pc \<Rightarrow> bool" where
  "owner p \<equiv> owns_head p \<or> owns_tail p"

lemma owner_critical: "owner p \<Longrightarrow> 0 < critical B p"
  by (cases p) simp_all

lemma first_psize:
  assumes "buffer_ok b tot" and "first_entry b e"
  shows "psize e \<le> capacity b"
proof -
  obtain es where "entries b = e # es"
    using assms(2) by (cases "entries b") (auto simp: first_entry_def)
  then have "entry_ok (capacity b) (head_of b) e"
    using buffer_okD(1) [OF assms(1)] by (simp add: ring_def)
  from entry_ok_inside [OF this] show ?thesis
    by simp
qed

lemma critical_step:
  assumes ok: "buffer_ok b tot" and a: "asserts p b" and own: "owner p" and nx: "next_step p b = (p', b', ev)"
  shows "owner p' \<Longrightarrow> critical (capacity b) p' < critical (capacity b) p"
proof (cases p)
  case (Write_Store bytes n t ph sts)
  then show "owner p' \<Longrightarrow> ?thesis"
    using nx by (cases sts) (auto split: option.split_asm)
next
  case (Take_Size task h ps)
  then obtain e where "first_entry b e" and "payload_size e = ps"
    using a by auto
  then have "unat ps \<le> capacity b"
    using first_psize [OF ok] by auto
  then show "owner p' \<Longrightarrow> ?thesis"
    using nx Take_Size by (auto split: option.split_asm if_split_asm task.split_asm)
next
  case (Take_Copy cp h ps es acc)
  then show "owner p' \<Longrightarrow> ?thesis"
    using nx by (auto split: option.split_asm if_split_asm dest: length_read_bytes)
qed (use nx own in \<open>auto simp: Let_def split: option.split_asm if_split_asm prod.split_asm\<close>)

lemma total_grows: "total c \<le> total (run_schedule is c)"
proof (induction "is" arbitrary: c)
  case (Cons i "is")
  have "total c \<le> total (after_step i (next_step (threads c i) (shared c)) c)"
    by (simp add: after_step_def split: prod.split)
  then show ?case
    using Cons.IH [of "after_step i (next_step (threads c i) (shared c)) c"] by (simp add: run_schedule_def)
qed (simp add: run_schedule_def)

lemma capacity_fixed:
  assumes inv: "config_inv c" and small: "total (after_step i (next_step (threads c i) (shared c)) c) < two64"
  shows "capacity (shared (after_step i (next_step (threads c i) (shared c)) c)) = capacity (shared c)"
proof -
  obtain p' b' ev where nx: "next_step (threads c i) (shared c) = (p', b', ev)"
    by (metis prod_cases3)
  have "good_step (threads c i) (shared c) (total c) (p', b', ev)"
    using next_step_good [OF config_invD(1,3) [OF inv], of i] small by (simp add: nx after_step_def)
  from good_stepD(2) [OF this] show ?thesis
    by (simp add: nx after_step_def evolves_def same_shape_capacity)
qed



end
