(* ===== verification/Interleaving_Alone.thy ===== *)
theory Interleaving_Alone
  imports Interleaving_Inv
begin

text \<open>
  The steps of a thread and the functions of the buffer describe the same code: a thread that runs
  alone makes the stores, returns the status and delivers the message that the function does.
\<close>

section \<open>Runs of one thread\<close>

text \<open>The thread reaches \<open>p'\<close> and leaves \<open>b'\<close>; \<open>ms\<close> are the messages it takes out on the way.\<close>

inductive runs_to :: "pc \<Rightarrow> IpcBuffer \<Rightarrow> u8 list list \<Rightarrow> pc \<Rightarrow> IpcBuffer \<Rightarrow> bool" where
  stay: "runs_to p b [] p b"
| go: "next_step p b = (p1, b1, ev) \<Longrightarrow> runs_to p1 b1 ms p' b' \<Longrightarrow>
    runs_to p b ((case ev of Taken m \<Rightarrow> [m] | _ \<Rightarrow> []) @ ms) p' b'"

lemma runs_silent: "next_step p b = (p1, b1, ev) \<Longrightarrow> (\<And>m. ev \<noteq> Taken m) \<Longrightarrow> runs_to p1 b1 ms p' b' \<Longrightarrow> runs_to p b ms p' b'"
  using runs_to.go [of p b p1 b1 ev ms p' b'] by (cases ev) auto

lemma runs_quiet: "next_step p b = (p1, b1, Silent) \<Longrightarrow> runs_to p1 b1 ms p' b' \<Longrightarrow> runs_to p b ms p' b'"
  using runs_silent [of p b p1 b1 Silent ms p' b'] by simp

lemma runs_drop: "next_step p b = (p1, b1, Dropped) \<Longrightarrow> runs_to p1 b1 ms p' b' \<Longrightarrow> runs_to p b ms p' b'"
  using runs_silent [of p b p1 b1 Dropped ms p' b'] by simp

lemma runs_taken: "next_step p b = (p1, b1, Taken m) \<Longrightarrow> runs_to p b [m] p1 b1"
  using runs_to.go [OF _ runs_to.stay, of p b p1 b1 "Taken m"] by simp

lemma runs_end: "next_step p b = (p1, b1, ev) \<Longrightarrow> (\<And>m. ev \<noteq> Taken m) \<Longrightarrow> runs_to p b [] p1 b1"
  by (rule runs_silent [OF _ _ runs_to.stay])

section \<open>Write\<close>

lemma store_entry_run_stores:
  assumes "store_entry ph t p s full bytes n d = Some d'"
  shows "run_stores (entry_stores ph t (unat p) s full bytes n) d = Some d'"
proof (cases ph)
  case True
  then show ?thesis
    using assms run_placeholder_stores by simp
next
  case False
  have "unat p + 24 + unat n \<le> length d" and "unat n \<le> length bytes"
    using assms False
    by (auto simp: store_entry_def memcpy_def read_bytes_def write_bytes_def sizeof_EntryHeader_def Let_def
        bind_eq_Some_conv split: if_split_asm)
  then show ?thesis
    using run_entry_stores assms by simp
qed

lemma runs_stores:
  assumes "run_stores sts (data b) = Some d'"
  shows "runs_to (Write_Store bytes n t ph sts) b [] (Write_Commit bytes n t ph) (b\<lparr>data := d'\<rparr>)"
  using assms
proof (induction sts arbitrary: b)
  case Nil
  then show ?case
    by (auto intro!: runs_end)
next
  case (Cons st rest)
  obtain p bs where st: "st = (p, bs)"
    by (cases st)
  obtain d1 where d1: "write_bytes (data b) p bs = Some d1" "run_stores rest d1 = Some d'"
    using Cons.prems by (auto simp: st bind_eq_Some_conv)
  show ?case
    using runs_silent [OF _ _ Cons.IH [of "b\<lparr>data := d1\<rparr>"], of "Write_Store bytes n t ph (st # rest)" b Silent] d1
    by (simp add: st)
qed

lemma runs_trans: "runs_to p b ms p1 b1 \<Longrightarrow> runs_to p1 b1 ms' p' b' \<Longrightarrow> runs_to p b (ms @ ms') p' b'"
proof (induction rule: runs_to.induct)
  case (go p b p1 b1 ev ms p2 b2)
  from runs_to.go [OF go.hyps(1) go.IH [OF go.prems]] show ?case
    by simp
qed simp

text \<open>The writer from its first step to the claim.\<close>

lemma runs_to_lock:
  assumes "\<not> (n = 0 \<or> data_size (header b) < full_entry_size n)" and "\<not> is_locked (tail (header b))"
    and "\<not> data_size (header b) - (tail (header b) - UNLOCK (read_head b)) < full_entry_size n"
    and "runs_to (Write_Store bytes n (tail (header b)) ph (entry_stores ph (tail (header b))
        (unat (RELATIVE (tail (header b)) (data_size (header b))))
        (data_size (header b) - RELATIVE (tail (header b)) (data_size (header b))) (full_entry_size n) bytes n))
      (set_tail (LOCK (tail (header b))) b) ms p' b'"
    and "ph = (data_size (header b) - RELATIVE (tail (header b)) (data_size (header b))
      < full_entry_size n + sizeof_EntryHeader)"
  shows "runs_to (Write_Start bytes n) b ms p' b'"
proof -
  let ?t = "tail (header b)" and ?h = "UNLOCK (read_head b)"
  have "runs_to (Write_Lock bytes n ?t ?h) b ms p' b'"
    using assms(2,4,5) by (intro runs_quiet [OF _ assms(4)]) (simp add: Let_def)
  then have "runs_to (Write_Head bytes n ?t) b ms p' b'"
    using assms(3) by (auto simp: Let_def intro: runs_silent [rotated 2])
  then have "runs_to (Write_Tail bytes n) b ms p' b'"
    using assms(2) by (auto simp: Let_def intro: runs_silent [rotated 2])
  then show ?thesis
    using assms(1) by (auto intro: runs_silent [rotated 2])
qed

text \<open>
  C6. Alone, the steps of a writer are \<open>ipc_buffer_write\<close>: whenever the function returns, the run
  that starts with its first access ends with the same status and the same shared buffer. Nothing
  is assumed of the buffer.
\<close>

theorem write_steps_agree:
  assumes "ipc_buffer_write fuel (Some b) (Some bytes) n = Done (r, Some b')"
  shows "runs_to (Write_Start bytes n) b [] (Idle (Some (ipc_status r))) b'"
  using assms
proof (induction fuel arbitrary: b)
  case 0
  then show ?case by simp
next
  case (Suc fuel)
  let ?full = "full_entry_size n" and ?S = "data_size (header b)"
  show ?case
  proof (cases "n = 0 \<or> ?S < ?full")
    case True
    then show ?thesis
      using Suc.prems by (auto simp: Let_def intro!: runs_end split: if_split_asm)
  next
    case False
    let ?t = "tail (header b)"
    show ?thesis
    proof (cases "is_locked ?t \<or> ?S - (?t - UNLOCK (read_head b)) < ?full")
      case True
      have "runs_to (Write_Tail bytes n) b [] (Idle (Some (ipc_status r))) b'"
      proof (cases "is_locked ?t")
        case True
        then show ?thesis
          using Suc.prems False by (auto simp: Let_def intro!: runs_end)
      next
        case unlocked: False
        then have "runs_to (Write_Head bytes n ?t) b [] (Idle (Some (ipc_status r))) b'"
          using Suc.prems False True by (auto simp: Let_def intro!: runs_end)
        then show ?thesis
          using unlocked by (auto simp: Let_def intro: runs_silent [rotated 2])
      qed
      then show ?thesis
        using False by (auto intro: runs_silent [rotated 2])
    next
      case go: False
      define ph where "ph \<longleftrightarrow> ?S - RELATIVE ?t ?S < ?full + sizeof_EntryHeader"
      let ?b = "set_tail (LOCK ?t) b"
      obtain d es where d: "store_entry ph ?t (RELATIVE ?t ?S) (?S - RELATIVE ?t ?S) ?full bytes n (data b) = Some d"
        and es: "load_u64 d (unat (RELATIVE ?t ?S) + 16) = Some es"
        and rest: "(if ph then ipc_buffer_write fuel (Some (set_tail (?t + es) (b\<lparr>data := d\<rparr>))) (Some bytes) n
          else Done (result_ok IPC_OK (), Some (set_tail (?t + es) (b\<lparr>data := d\<rparr>)))) = Done (r, Some b')"
        using Suc.prems False go
        by (auto simp: Let_def ph_def set_tail_data elim!: access_DoneE)
      have "runs_to (Write_Commit bytes n ?t ph) (?b\<lparr>data := d\<rparr>) [] (Idle (Some (ipc_status r))) b'"
      proof (cases ph)
        case True
        then have "runs_to (Write_Start bytes n) (set_tail (?t + es) (b\<lparr>data := d\<rparr>)) [] (Idle (Some (ipc_status r))) b'"
          using rest Suc.IH by simp
        then show ?thesis
          using es True by (auto simp: Let_def set_tail_data intro: runs_silent [rotated 2])
      next
        case False
        then show ?thesis
          using es rest by (auto simp: Let_def set_tail_data intro!: runs_end)
      qed
      moreover have "runs_to (Write_Store bytes n ?t ph (entry_stores ph ?t (unat (RELATIVE ?t ?S))
          (?S - RELATIVE ?t ?S) ?full bytes n)) ?b [] (Write_Commit bytes n ?t ph) (?b\<lparr>data := d\<rparr>)"
        using runs_stores store_entry_run_stores [OF d] by simp
      ultimately show ?thesis
        using runs_to_lock [OF False _ _ _ ph_def] go runs_trans by fastforce
    qed
  qed
qed

definition blank :: IpcBuffer where
  "blank = \<lparr>header = \<lparr>head = 0, data_size = 64, tail = 0\<rparr>, data = replicate 64 0\<rparr>"

definition holding :: IpcBuffer where
  "holding = (case ipc_buffer_write 2 (Some blank) (Some [9, 8]) 2 of Done (_, Some b) \<Rightarrow> b | _ \<Rightarrow> blank)"

theorem write_steps_agree_witness:
  "\<exists>b'. runs_to (Write_Start [9, 8] 2) blank [] (Idle (Some IPC_OK)) b' \<and> messages b' = [[9, 8]]"
proof -
  have "case ipc_buffer_write 2 (Some blank) (Some [9, 8]) 2 of
      Done (r, Some b') \<Rightarrow> ipc_status r = IPC_OK \<and> messages b' = [[9, 8]] | _ \<Rightarrow> False"
    by code_simp
  then obtain r b' where "ipc_buffer_write 2 (Some blank) (Some [9, 8]) 2 = Done (r, Some b')"
    and r: "ipc_status r = IPC_OK" "messages b' = [[9, 8]]"
    by (auto split: run.split_asm prod.split_asm option.split_asm simp del: ipc_buffer_write.simps)
  from write_steps_agree [OF this(1)] r show ?thesis
    by auto
qed

section \<open>Read, peek and skip\<close>

text \<open>\<open>_read_entry_header\<close> of a consumer that holds \<open>head\<close>.\<close>

lemma header_steps:
  assumes rd: "read_entry_header b h = Some (status, hdr)" and h: "\<not> is_locked h"
  obtains "status \<noteq> IPC_PLACEHOLDER" and "status \<noteq> IPC_OK" and "status \<noteq> IPC_ERR_ILLEGAL_STATE"
      and "\<And>task ms p' b'. runs_to (Take_Unlock task h status) b ms p' b' \<Longrightarrow> runs_to (Take_Tail task h) b ms p' b'"
  | e where "hdr = Some e" and "status = (if payload_size e = 0 then IPC_PLACEHOLDER else IPC_OK)"
      and "load_u64 (data b) (unat (RELATIVE h (data_size (header b))) + 16) = Some (entry_size e)"
      and "\<And>task ms p' b'. runs_to (Take_Size task h (payload_size e)) b ms p' b' \<Longrightarrow> runs_to (Take_Tail task h) b ms p' b'"
proof (cases "h = UNLOCK (tail (header b)) \<or> is_locked (tail (header b))")
  case True
  then have st: "status = (if h = UNLOCK (tail (header b)) then IPC_EMPTY else IPC_ERR_NOT_READY)"
    using rd h by (auto simp: read_entry_header_def read_entry_header_unsafe_def Let_def split: if_split_asm)
  show thesis
  proof (rule that(1))
    show "runs_to (Take_Tail task h) b ms p' b'" if "runs_to (Take_Unlock task h status) b ms p' b'" for task ms p' b'
      by (rule runs_quiet [OF _ that]) (use True h st in \<open>auto simp: Let_def\<close>)
  qed (simp_all add: st)
next
  case False
  let ?p = "unat (RELATIVE h (data_size (header b)))"
  have unsafe: "read_entry_header_unsafe b h = (IPC_OK, Some ?p)"
    using False h by (auto simp: read_entry_header_unsafe_def Let_def)
  then obtain sq where sq: "load_u64 (data b) ?p = Some sq"
    using rd by (auto simp: read_entry_header_def bind_eq_Some_conv)
  have tl: "runs_to (Take_Tail task h) b ms p' b'" if "runs_to (Take_Seq task h) b ms p' b'" for task ms p' b'
    by (rule runs_quiet [OF _ that]) (use False h in \<open>auto simp: Let_def\<close>)
  show thesis
  proof (cases "sq = h")
    case differs: False
    then have st: "status = IPC_ERR_NOT_READY"
      using rd unsafe sq h by (simp add: read_entry_header_def)
    show thesis
    proof (rule that(1))
      show "runs_to (Take_Tail task h) b ms p' b'" if "runs_to (Take_Unlock task h status) b ms p' b'" for task ms p' b'
        by (rule tl, rule runs_quiet [OF _ that]) (use sq differs h st in auto)
    qed (simp_all add: st)
  next
    case True
    then obtain ps es where ld: "load_u64 (data b) (?p + 8) = Some ps" "load_u64 (data b) (?p + 16) = Some es"
      and res: "hdr = Some \<lparr>seq = h, payload_size = ps, entry_size = es\<rparr>"
        "status = (if ps = 0 then IPC_PLACEHOLDER else IPC_OK)"
      using rd unsafe sq by (auto simp: read_entry_header_def bind_eq_Some_conv)
    show thesis
    proof (rule that(2) [OF res(1)])
      show "runs_to (Take_Tail task h) b ms p' b'"
        if "runs_to (Take_Size task h (payload_size \<lparr>seq = h, payload_size = ps, entry_size = es\<rparr>)) b ms p' b'" for task ms p' b'
      proof -
        have pl: "runs_to (Take_Payload task h) b ms p' b'"
          by (rule runs_quiet [OF _ that]) (use ld h in simp)
        show ?thesis
          by (rule tl, rule runs_quiet [OF _ pl]) (use sq True h in simp)
      qed
    qed (use ld res in simp_all)
  qed
qed

lemma copy_steps:
  assumes "read_bytes (data b) (unat (RELATIVE h (data_size (header b))) + 24) (unat ps) = Some bytes"
  shows "runs_to (Take_Copy cap h ps es []) b [] (Take_Commit (Reading cap) h ps es bytes) b"
proof -
  have len: "length bytes = unat ps"
    using assms by (rule length_read_bytes)
  have "runs_to (Take_Copy cap h ps es (take (unat ps - m) bytes)) b [] (Take_Commit (Reading cap) h ps es bytes) b"
    if "m \<le> unat ps" for m
    using that
  proof (induction m)
    case 0
    then show ?case
      using len by (auto intro!: runs_end)
  next
    case (Suc m)
    let ?k = "unat ps - Suc m"
    have k: "?k < unat ps" and k': "Suc ?k = unat ps - m"
      using Suc.prems by simp_all
    have "take ?k bytes @ [bytes ! ?k] = take (unat ps - m) bytes"
      using k len by (simp flip: k' take_Suc_conv_app_nth)
    moreover have "runs_to (Take_Copy cap h ps es (take (unat ps - m) bytes)) b [] (Take_Commit (Reading cap) h ps es bytes) b"
      using Suc by simp
    ultimately show ?case
      by (intro runs_quiet [of "Take_Copy cap h ps es (take ?k bytes)"])
        (use k len read_one_byte [OF assms k] in simp)
  qed
  from this [of "unat ps"] show ?thesis
    by simp
qed

lemma runs_to_claim:
  assumes "\<not> is_locked (head (header b))" and "\<And>off. task = Skipping off \<Longrightarrow> head (header b) = off"
    and tl: "runs_to (Take_Tail task (head (header b))) (set_head (LOCK (head (header b))) b) ms p' b'"
  shows "runs_to (Take_Head task) b ms p' b'"
proof -
  have "runs_to (Take_Lock task (head (header b))) b ms p' b'"
    by (rule runs_quiet [OF _ tl]) (use assms(1) in simp)
  from runs_quiet [OF _ this] show ?thesis
    using assms(1,2) by (cases task) (simp_all add: read_head_def Let_def)
qed

lemma claim_head_alone:
  "claim_head (Suc n) b = Done (if is_locked (head (header b)) then (Inl (head (header b)), b)
     else (Inr (head (header b)), set_head (LOCK (head (header b))) b))"
  by (simp add: read_head_def Let_def)

lemma unlock_alone:
  assumes "\<not> is_locked (head (header b))"
  shows "runs_to (Take_Unlock task (head (header b)) st) (set_head (LOCK (head (header b))) b) [] (Idle (Some st)) b"
  using assms by (intro runs_end [where ev = Silent]) simp_all

declare claim_head.simps [simp del] claim_head_alone [simp]

text \<open>What a run delivers: the message a successful read has stored behind the pointer.\<close>

definition delivered :: "IpcStatus \<Rightarrow> IpcEntry \<Rightarrow> u8 list list" where
  "delivered st entry = (case payload entry of
     Own new \<Rightarrow> (if st = IPC_OK then [take (unat (entry_len entry)) new] else [])
   | _ \<Rightarrow> [])"

text \<open>
  C7. Alone, the steps of a reader are \<open>ipc_buffer_read\<close>: whenever the function returns into a
  destination outside the data area, the run ends with the same status and the same shared buffer,
  and the one message it takes is the one the function has copied to the destination.
\<close>

theorem read_steps_agree:
  assumes "ipc_buffer_read fuel (Some b) (Some entry) = Done (r, Some entry', Some b')"
    and "payload entry = Own old"
  shows "runs_to (Take_Head (Reading (entry_len entry))) b (delivered (ipc_status r) entry')
    (Idle (Some (ipc_status r))) b'"
  using assms
proof (induction fuel arbitrary: b)
  case 0
  then show ?case by simp
next
  case (Suc fuel)
  let ?h = "head (header b)"
  let ?b = "set_head (LOCK ?h) b"
  show ?case
  proof (cases "is_locked ?h")
    case True
    then show ?thesis
      using Suc.prems by (auto simp: delivered_def read_head_def Let_def intro!: runs_end split: payload_ptr.split)
  next
    case h: False
    then obtain status hdr where rd: "read_entry_header ?b ?h = Some (status, hdr)"
      using Suc.prems by (auto simp: Let_def elim!: access_DoneE)
    have "runs_to (Take_Tail (Reading (entry_len entry)) ?h) ?b (delivered (ipc_status r) entry')
        (Idle (Some (ipc_status r))) b'"
    proof (cases rule: header_steps [OF rd h])
      case 1
      have "ipc_status r = status" and "b' = b"
        using Suc.prems rd h 1(1,2) by (auto simp: Let_def split: if_split_asm)
      then show ?thesis
        using 1(2) unlock_alone [OF h] by (intro 1(4)) (auto simp: delivered_def split: payload_ptr.split)
    next
      case (2 e)
      show ?thesis
      proof (cases "payload_size e = 0")
        case True
        then have "ipc_buffer_read fuel (Some (set_head (?h + entry_size e) b)) (Some entry) = Done (r, Some entry', Some b')"
          using Suc.prems rd h 2 by (simp add: Let_def)
        note rest = Suc.IH [OF this Suc.prems(2)]
        have "runs_to (Take_Commit (Reading (entry_len entry)) ?h 0 (entry_size e) []) ?b
            (delivered (ipc_status r) entry') (Idle (Some (ipc_status r))) b'"
          by (rule runs_drop [OF _ rest]) (simp add: Let_def)
        from runs_quiet [OF _ this] show ?thesis
          using True h 2(3) by (intro 2(4)) simp
      next
        case full: False
        show ?thesis
        proof (cases "entry_len entry < payload_size e")
          case True
          then have "ipc_status r = IPC_ERR_TOO_SMALL" and "b' = b" and "entry' = entry"
            using Suc.prems rd h 2 full by (auto simp: Let_def)
          then have "runs_to (Take_Unlock (Reading (entry_len entry)) ?h IPC_ERR_TOO_SMALL) ?b
              (delivered (ipc_status r) entry') (Idle (Some (ipc_status r))) b'"
            using Suc.prems(2) unlock_alone [OF h] by (simp add: delivered_def)
          from runs_quiet [OF _ this] show ?thesis
            using True full h 2(3) by (intro 2(4)) simp
        next
          case False
          let ?n = "unat (payload_size e)"
          obtain bytes new where bs: "read_bytes (data b) (unat (RELATIVE ?h (data_size (header b))) + 24) ?n = Some bytes"
            and new: "write_bytes old 0 bytes = Some new"
            and r: "ipc_status r = IPC_OK" "b' = set_head (?h + entry_size e) b"
              "payload entry' = Own new" "entry_len entry' = payload_size e"
            using Suc.prems rd h 2 full False
            by (auto simp: Let_def sizeof_EntryHeader_def set_head_data elim!: access_DoneE)
          have "delivered (ipc_status r) entry' = [bytes]"
            using r new length_read_bytes [OF bs] by (auto simp: delivered_def write_bytes_def split: if_split_asm)
          then have "runs_to (Take_Commit (Reading (entry_len entry)) ?h (payload_size e) (entry_size e) bytes) ?b
              (delivered (ipc_status r) entry') (Idle (Some (ipc_status r))) b'"
            using runs_taken r full by (simp add: Let_def)
          moreover have "runs_to (Take_Copy (entry_len entry) ?h (payload_size e) (entry_size e) []) ?b []
              (Take_Commit (Reading (entry_len entry)) ?h (payload_size e) (entry_size e) bytes) ?b"
            using bs by (intro copy_steps) simp
          ultimately have "runs_to (Take_Copy (entry_len entry) ?h (payload_size e) (entry_size e) []) ?b
              (delivered (ipc_status r) entry') (Idle (Some (ipc_status r))) b'"
            using runs_trans by fastforce
          from runs_quiet [OF _ this] show ?thesis
            using False full h 2(3) by (intro 2(4)) simp
        qed
      qed
    qed
    from runs_to_claim [OF h _ this] show ?thesis
      by simp
  qed
qed

theorem read_steps_agree_witness:
  "\<exists>b'. runs_to (Take_Head (Reading 4)) holding [[9, 8]] (Idle (Some IPC_OK)) b' \<and> messages b' = []"
proof -
  let ?dest = "\<lparr>entry_offset = 0, payload = Own [0, 0, 0, 0], entry_len = 4\<rparr>"
  have "case ipc_buffer_read 2 (Some holding) (Some ?dest) of
      Done (r, Some entry', Some b') \<Rightarrow> ipc_status r = IPC_OK \<and> messages b' = [] \<and>
        delivered (ipc_status r) entry' = [[9, 8]] | _ \<Rightarrow> False"
    by code_simp
  then obtain r entry' b' where "ipc_buffer_read 2 (Some holding) (Some ?dest) = Done (r, Some entry', Some b')"
    and r: "ipc_status r = IPC_OK" "messages b' = []" "delivered (ipc_status r) entry' = [[9, 8]]"
    by (auto split: run.split_asm prod.split_asm option.split_asm simp del: ipc_buffer_read.simps)
  from read_steps_agree [OF this(1)] r show ?thesis
    by auto
qed

text \<open>The same for peek and skip, and for the forced skip, which takes no lock.\<close>

theorem peek_steps_agree:
  assumes "ipc_buffer_peek fuel (Some b) (Some entry) = Done (r, Some entry', Some b')"
  shows "runs_to (Take_Head Peeking) b [] (Idle (Some (ipc_status r))) b'"
  using assms
proof (induction fuel arbitrary: b)
  case 0
  then show ?case by simp
next
  case (Suc fuel)
  let ?h = "head (header b)"
  let ?b = "set_head (LOCK ?h) b"
  show ?case
  proof (cases "is_locked ?h")
    case True
    then show ?thesis
      using Suc.prems by (auto simp: read_head_def Let_def intro!: runs_end)
  next
    case h: False
    then obtain status hdr where rd: "read_entry_header ?b ?h = Some (status, hdr)"
      using Suc.prems by (auto simp: Let_def elim!: access_DoneE)
    have "runs_to (Take_Tail Peeking ?h) ?b [] (Idle (Some (ipc_status r))) b'"
    proof (cases rule: header_steps [OF rd h])
      case 1
      have "ipc_status r = status" and "b' = b"
        using Suc.prems rd h 1(1,2) by (auto simp: Let_def split: if_split_asm)
      then show ?thesis
        using unlock_alone [OF h] by (intro 1(4)) simp
    next
      case (2 e)
      show ?thesis
      proof (cases "payload_size e = 0")
        case True
        then have "ipc_buffer_peek fuel (Some (set_head (?h + entry_size e) b)) (Some entry) = Done (r, Some entry', Some b')"
          using Suc.prems rd h 2 by (simp add: Let_def)
        note rest = Suc.IH [OF this]
        have "runs_to (Take_Commit Peeking ?h 0 (entry_size e) []) ?b [] (Idle (Some (ipc_status r))) b'"
          by (rule runs_drop [OF _ rest]) (simp add: Let_def)
        from runs_quiet [OF _ this] show ?thesis
          using True h 2(3) by (intro 2(4)) simp
      next
        case False
        then have "ipc_status r = IPC_OK" and "b' = b"
          using Suc.prems rd h 2 by (auto simp: Let_def)
        then have "runs_to (Take_Unlock Peeking ?h IPC_OK) ?b [] (Idle (Some (ipc_status r))) b'"
          using unlock_alone [OF h] by simp
        from runs_quiet [OF _ this] show ?thesis
          using False h 2(3) by (intro 2(4)) simp
      qed
    qed
    from runs_to_claim [OF h _ this] show ?thesis
      by simp
  qed
qed

lemma claim_head_at_alone:
  assumes "\<not> is_locked (head (header b))" and "head (header b) = off"
  shows "claim_head_at (Suc n) off b = Done (Inr off, set_head (LOCK off) b)"
  using assms by (auto simp: read_head_def Let_def)

theorem skip_steps_agree:
  assumes "ipc_buffer_skip fuel (Some b) off = Done (r, Some b')" and "is_aligned off"
  shows "runs_to (Take_Head (Skipping off)) b [] (Idle (Some (ipc_status r))) b'"
  using assms(1)
proof (induction fuel arbitrary: b)
  case 0
  then show ?case by simp
next
  case (Suc fuel)
  let ?h = "head (header b)"
  let ?b = "set_head (LOCK ?h) b"
  show ?case
  proof (cases "is_locked ?h \<or> ?h \<noteq> off")
    case True
    then show ?thesis
      using Suc.prems assms(2) by (auto simp: read_head_def Let_def intro!: runs_end)
  next
    case False
    then have h: "\<not> is_locked ?h" and off: "off = ?h"
      by auto
    note claim = claim_head_at_alone [OF h off [symmetric]]
    obtain status hdr where rd: "read_entry_header ?b ?h = Some (status, hdr)"
      using Suc.prems claim assms(2) by (auto simp: off Let_def simp del: claim_head_at.simps elim!: access_DoneE)
    have "runs_to (Take_Tail (Skipping off) ?h) ?b [] (Idle (Some (ipc_status r))) b'"
    proof (cases rule: header_steps [OF rd h])
      case 1
      have "ipc_status r = status" and "b' = b"
        using Suc.prems claim assms(2) rd h 1(1,2)
        by (auto simp: off Let_def simp del: claim_head_at.simps split: if_split_asm)
      then show ?thesis
        using unlock_alone [OF h] by (intro 1(4)) simp
    next
      case (2 e)
      let ?c = "set_head (?h + entry_size e) b"
      have "runs_to (Take_Commit (Skipping off) ?h (payload_size e) (entry_size e) []) ?b []
          (Idle (Some (ipc_status r))) b'"
      proof (cases "payload_size e = 0")
        case True
        then have "ipc_buffer_skip fuel (Some ?c) off = Done (r, Some b')"
          using Suc.prems claim assms(2) rd h 2 by (simp add: off Let_def del: claim_head_at.simps)
        note rest = Suc.IH [OF this]
        show ?thesis
          by (rule runs_drop [OF _ rest]) (simp add: True Let_def)
      next
        case False
        then have "ipc_status r = IPC_OK" and "b' = ?c"
          using Suc.prems claim assms(2) rd h 2 by (auto simp: off Let_def simp del: claim_head_at.simps)
        then show ?thesis
          using False by (intro runs_end [where ev = Dropped]) (simp_all add: Let_def)
      qed
      from runs_quiet [OF _ this] show ?thesis
        using h 2(3) by (intro 2(4)) simp
    qed
    from runs_to_claim [OF h _ this] show ?thesis
      using off by simp
  qed
qed

theorem skip_force_steps_agree:
  assumes "ipc_buffer_skip_force (Some b) = Done (r, Some b')"
  shows "runs_to Force_Head b [] (Idle (Some (ipc_status r))) b'"
proof -
  let ?h = "head_of b"
  have "runs_to (Force_Tail ?h) b [] (Idle (Some (ipc_status r))) b'"
  proof (cases "?h = tail_of b")
    case True
    then show ?thesis
      using assms
      by (auto simp: ipc_buffer_skip_force_def read_entry_header_unsafe_def read_head_def Let_def intro!: runs_end)
  next
    case False
    let ?p = "unat (RELATIVE ?h (data_size (header b)))"
    obtain es where es: "load_u64 (data b) (?p + 16) = Some es"
      and r: "ipc_status r = (if head (header b) = ?h then IPC_OK else IPC_ALREADY_SKIPPED)"
        "b' = set_head (if head (header b) = ?h then ?h + es else head (header b)) b"
      using assms False
      by (auto simp: ipc_buffer_skip_force_def read_entry_header_unsafe_def read_head_def Let_def
          compare_exchange_def elim!: access_DoneE split: if_split_asm)
    have swap: "runs_to (Force_Swap ?h es) b [] (Idle (Some (ipc_status r))) b'"
      by (rule runs_end [where ev = "if head (header b) = ?h then Dropped else Silent"])
        (simp_all add: r compare_exchange_def)
    have size: "runs_to (Force_Size ?h ?p) b [] (Idle (Some (ipc_status r))) b'"
      by (rule runs_quiet [OF _ swap]) (simp add: es)
    show ?thesis
      by (rule runs_quiet [OF _ size]) (use False in simp)
  qed
  from runs_quiet [OF _ this] show ?thesis
    by (simp add: read_head_def)
qed

end
