(* ===== verification/Spec2Isabelle.thy ===== *)
theory Spec2Isabelle
  imports Jni_Spec Result_Types Interleaving_Spec Interleaving_Alone
begin

text \<open>
  Verification of libshmipc, a library for passing messages between processes through shared memory.

  \<^bold>\<open>The program.\<close> A ring buffer (\<^verbatim>\<open>core/src/ipc_buffer.c\<close>) holds messages as entries between two cursors,
  \<open>head\<close> and \<open>tail\<close>, that count bytes modulo \<open>2\<^sup>6\<^sup>4\<close> and carry a lock in bit 0. A channel
  (\<^verbatim>\<open>core/src/ipc_channel.c\<close>) adds a notification counter that readers sleep on (\<^verbatim>\<open>core/src/ipc_futex.c\<close>)
  and retries. Segments of shared memory come from \<^verbatim>\<open>core/src/ipc_mmap.c\<close>, and \<^verbatim>\<open>core/src/ipc_init.c\<close>
  combines a segment with a buffer or a channel. Every operation returns the status and union structure
  of \<^verbatim>\<open>include/shmipc/ipc_common.h\<close>.

  \<^bold>\<open>Theories and sources.\<close> Functions, structures and fields keep their names (field names carry a prefix
  where two structures share one).
  \<^item> \<open>Prelude\<close>: words, the outcome type \<open>run\<close> (\<open>Done\<close>, \<open>Fault\<close> for an access outside an object or other
    undefined behaviour, \<open>Timeout\<close> for exhausted fuel), little-endian storage, bounded copies.
  \<^item> \<open>Ipc_Utils\<close>: \<^verbatim>\<open>ipc_utils.h\<close>, \<^verbatim>\<open>ipc_utils.c\<close>; \<open>Ipc_Common\<close>: \<^verbatim>\<open>ipc_common.h\<close>.
  \<^item> \<open>Ipc_Buffer\<close>: the operations of \<^verbatim>\<open>ipc_buffer.c\<close> on the contents of a buffer. The state \<open>IpcBuffer\<close> is
    the header (three words) and the bytes of the data area. \<open>Buffer_Object\<close>: \<open>ipc_buffer_create\<close> and
    \<open>ipc_buffer_attach\<close>, over the memory of \<open>C_Memory\<close> (objects, pointers, \<open>malloc\<close> that may fail, \<open>free\<close>).
  \<^item> \<open>Interleaving\<close>: the same operations cut into single accesses of shared memory, and the
    configurations that any number of threads reach by interleaving them.
  \<^item> \<open>Ipc_Futex\<close>: both branches of \<^verbatim>\<open>ipc_futex.c\<close>; \<open>Ipc_Channel\<close>: the operations of \<^verbatim>\<open>ipc_channel.c\<close> on a
    channel; \<open>Channel_Object\<close>: its create, connect and destroy.
  \<^item> \<open>Ipc_Mmap\<close>: \<^verbatim>\<open>ipc_mmap.c\<close> over a process (memory, descriptors, names); \<open>Ipc_Init\<close>: \<^verbatim>\<open>ipc_init.c\<close>.
  \<^item> \<open>Jni_Channel\<close>: the native methods of the Java class, both copies of
    \<^verbatim>\<open>lib_shm_ipc_jni_IpcChannel.c\<close>.

  \<^bold>\<open>What is shown.\<close>
  \<^item> \<open>Buffer_Ring\<close>, \<open>Buffer_Write\<close>, \<open>Buffer_Read\<close>: the invariant \<open>ring\<close> (the bytes between the cursors are
    a chain of entries with a room for a header behind it), its preservation, and the abstraction
    \<open>messages\<close>. \<open>Buffer_Spec\<close>: every operation on every branch as an operation of a queue of messages.
  \<^item> \<open>Message_Queue\<close>: the contract of a message queue as locales; \<open>Buffer_Queue\<close> and \<open>Channel_Queue\<close>
    interpret them with the code's operations, which gives the FIFO theorems for every sequence of calls.
  \<^item> \<open>Interleaving_Inv\<close>, \<open>Interleaving_Steps\<close>, \<open>Interleaving_Spec\<close>: one assertion for each position of
    a thread, non-interference of every step with the assertions of the other threads, and what
    follows: the queue property, mutual exclusion, no torn reads, no fault, locks that are given
    back. \<open>Interleaving_Alone\<close>: a thread that runs alone does what the functions of \<open>Ipc_Buffer\<close> do.
  \<^item> \<open>Channel_Read\<close>, \<open>Channel_Spec\<close>, \<open>Channel_Queue\<close>: the channel among other threads, whose actions between
    two accesses of this one are a parameter (\<open>os\<close>) of the model: first for any interference (heap
    blocks), then for one consumer among many writers.
  \<^item> \<open>Channel_Object\<close>, \<open>Buffer_Object\<close>, \<open>Mmap_Spec\<close>, \<open>Init_Spec\<close>: construction and destruction on every
    branch, with the heap blocks, mappings, descriptors and names that are left.
  \<^item> \<open>Jni_Spec\<close>: the native methods end to end, from the size Java asks for to the arrays it gets.
  \<^item> \<open>Result_Types\<close>: the member of the union that is stored is the one the status announces.

  \<^bold>\<open>Parameters.\<close> The operating system (\<open>sys\<close>, \<open>os\<close>, the system calls of \<open>Ipc_Futex\<close>), the Java virtual
  machine (\<open>jni\<close>) and the other threads are arguments of the definitions. The values that the code
  reads without having set them are parameters too (\<open>uninit\<close>, the initial contents of a block).

  \<^bold>\<open>Fuel and loops.\<close> Loops that double a 64-bit counter are \<open>while_option\<close> loops, and the theorems say for
  which inputs they end. The retry loops of the buffer and the recursion at a placeholder take fuel: a
  thread alone needs 2 for a write (at most one placeholder is written before a message) and, for a
  consumer, one more than the number of entries, for which the length of the data area is enough; the
  theorems state that the call returns. The waiting loop of \<open>ipc_channel_read\<close> has fuel for its rounds
  and the theorem on it names a clock that advances.

  \<^bold>\<open>Assumptions of the interleaved model.\<close> Atomic accesses are sequentially consistent, as the code
  requests; plain accesses take effect between the atomic ones around them, which holds for the
  accesses under a lock. A writer reads back \<open>entry_size\<close> of its own locked entry in the step that
  publishes it. Fewer than \<open>2\<^sup>6\<^sup>4\<close> bytes have been appended since the creation of the buffer: beyond that
  a cursor could return to an old value between two accesses of a stalled thread.

  \<^bold>\<open>Not modelled.\<close> The Java classes (declarations and library loading) and the debug output of the native
  methods; the tests; the build files. Undefined behaviour of C beyond
  what \<open>Fault\<close> covers, weak memory orders (none is used), and signals other than the \<open>EINTR\<close> of a wait.
\<close>

end
